theory Spec2Isabelle
  imports Main
begin

section \<open>The document\<close>

text \<open>
  The scripts of the site (\<^verbatim>\<open>js/animation.js\<close> and the mobile menu script) only
  read and write element class lists and attributes, and ask the browser which elements
  match a CSS selector. An element is identified by its position in document order; a
  parent always precedes its children, so \<open>parentNode\<close> points to a smaller position.
  A position beyond the end of the list is no element: reading it finds nothing and
  writing it changes nothing.
\<close>

record element =
  tagName :: string
  classList :: "string list"
  attributes :: "(string \<times> string) list"
  parentNode :: "nat option"

type_synonym document = "element list"

datatype error = SyntaxError | TypeError

text \<open>
  An exception of JavaScript does not undo the writes made before it: an outcome keeps
  the state reached when the function returned or threw.
\<close>

datatype 'a outcome = Done 'a | Threw error 'a

fun stateOf :: "'a outcome \<Rightarrow> 'a" where
  "stateOf (Done s) = s"
| "stateOf (Threw e s) = s"

subsection \<open>DOMTokenList and attributes\<close>

definition classList_contains :: "document \<Rightarrow> nat \<Rightarrow> string \<Rightarrow> bool" where
  "classList_contains d i c = (i < length d \<and> c \<in> set (classList (d ! i)))"

definition classList_add :: "string \<Rightarrow> nat \<Rightarrow> document \<Rightarrow> document" where
  "classList_add c i d =
     (if i < length d \<and> c \<notin> set (classList (d ! i))
      then d[i := (d ! i)\<lparr>classList := classList (d ! i) @ [c]\<rparr>] else d)"

definition classList_remove :: "string \<Rightarrow> nat \<Rightarrow> document \<Rightarrow> document" where
  "classList_remove c i d =
     (if i < length d \<and> c \<in> set (classList (d ! i))
      then d[i := (d ! i)\<lparr>classList := removeAll c (classList (d ! i))\<rparr>] else d)"

definition classList_toggle :: "string \<Rightarrow> nat \<Rightarrow> document \<Rightarrow> document" where
  "classList_toggle c i d =
     (if classList_contains d i c then classList_remove c i d else classList_add c i d)"

text \<open>\<^verbatim>\<open>element.className = name\<close>, for a name that is one class token.\<close>

definition set_className :: "string \<Rightarrow> nat \<Rightarrow> document \<Rightarrow> document" where
  "set_className c i d = (if i < length d then d[i := (d ! i)\<lparr>classList := [c]\<rparr>] else d)"

definition getAttribute :: "document \<Rightarrow> nat \<Rightarrow> string \<Rightarrow> string option" where
  "getAttribute d i k = (if i < length d then map_of (attributes (d ! i)) k else None)"

fun attr_update :: "string \<Rightarrow> string \<Rightarrow> (string \<times> string) list \<Rightarrow> (string \<times> string) list" where
  "attr_update k v [] = [(k, v)]"
| "attr_update k v (p # ps) = (if fst p = k then (k, v) # ps else p # attr_update k v ps)"

definition setAttribute :: "string \<Rightarrow> string \<Rightarrow> nat \<Rightarrow> document \<Rightarrow> document" where
  "setAttribute k v i d =
     (if i < length d then d[i := (d ! i)\<lparr>attributes := attr_update k v (attributes (d ! i))\<rparr>]
      else d)"

definition removeAttribute :: "string \<Rightarrow> nat \<Rightarrow> document \<Rightarrow> document" where
  "removeAttribute k i d =
     (if i < length d
      then d[i := (d ! i)\<lparr>attributes := filter (\<lambda>p. fst p \<noteq> k) (attributes (d ! i))\<rparr>]
      else d)"

subsection \<open>The tree\<close>

definition parentOf :: "document \<Rightarrow> nat \<Rightarrow> nat option" where
  "parentOf d i =
     (if i < length d
      then (case parentNode (d ! i) of None \<Rightarrow> None
            | Some p \<Rightarrow> if p < i then Some p else None)
      else None)"

lemma parentOf_less: "parentOf d i = Some p \<Longrightarrow> p < i"
  by (auto simp: parentOf_def split: if_splits option.splits)

text \<open>The proper ancestors of an element, the nearest first.\<close>

function ancestors :: "document \<Rightarrow> nat \<Rightarrow> nat list" where
  "ancestors d i = (case parentOf d i of None \<Rightarrow> [] | Some p \<Rightarrow> p # ancestors d p)"
  by pat_completeness auto
termination
  by (relation "measure snd") (auto dest: parentOf_less)

declare ancestors.simps [simp del]

text \<open>\<^verbatim>\<open>node.contains(other)\<close>: the other node is the node or one of its descendants.\<close>

definition contains_node :: "document \<Rightarrow> nat \<Rightarrow> nat \<Rightarrow> bool" where
  "contains_node d n other = (other < length d \<and> (other = n \<or> n \<in> set (ancestors d other)))"

subsection \<open>String functions of JavaScript, on ASCII\<close>

definition toLowerCase :: "string \<Rightarrow> string" where
  "toLowerCase s =
     map (\<lambda>c. case map_of (zip ''ABCDEFGHIJKLMNOPQRSTUVWXYZ'' ''abcdefghijklmnopqrstuvwxyz'') c of
                None \<Rightarrow> c | Some l \<Rightarrow> l) s"

definition startsWith :: "string \<Rightarrow> string \<Rightarrow> bool" where
  "startsWith s p = (take (length p) s = p)"

text \<open>\<^verbatim>\<open>s.includes(p)\<close>: \<open>p\<close> occurs in \<open>s\<close>.\<close>

fun includes_str :: "string \<Rightarrow> string \<Rightarrow> bool" where
  "includes_str [] p = (p = [])"
| "includes_str (c # cs) p = (startsWith (c # cs) p \<or> includes_str cs p)"

text \<open>\<^verbatim>\<open>s.replace(p, r)\<close> with a string pattern: the first occurrence only.\<close>

fun replace :: "string \<Rightarrow> string \<Rightarrow> string \<Rightarrow> string" where
  "replace [] p r = (if p = [] then r else [])"
| "replace (c # cs) p r =
     (if startsWith (c # cs) p then r @ drop (length p) (c # cs) else c # replace cs p r)"

text \<open>\<^verbatim>\<open>s.slice(1)\<close>\<close>

definition slice1 :: "string \<Rightarrow> string" where
  "slice1 s = drop 1 s"

section \<open>CSS selectors\<close>

text \<open>
  What the browser does for \<^verbatim>\<open>querySelectorAll\<close>, \<^verbatim>\<open>querySelector\<close> and
  \<^verbatim>\<open>closest\<close>, for the selectors the scripts use and the ones built like them:
  compound selectors made of a type selector or \<^verbatim>\<open>*\<close>, class selectors and
  \<^verbatim>\<open>:not(.class)\<close>, joined by the descendant combinator (a space) or the child
  combinator (\<^verbatim>\<open>>\<close> between spaces). These are the selectors the scripts
  themselves pass to the browser. A string outside this grammar is answered with a
  \<open>SyntaxError\<close>, which is what a browser answers to a string it cannot parse; a
  browser does parse more than this grammar (lists with commas, identifiers,
  attributes, other combinators), so where the selector comes from the caller, in
  \<^verbatim>\<open>triggerAnimation\<close>, the browser's query is a parameter of the model and not this
  definition.
\<close>

datatype simple = Universal | Type string | Class string | Not_Class string

datatype combinator = Descendant | Child

datatype complex = Single "simple list" | Comb complex combinator "simple list"

definition isIdentChar :: "char \<Rightarrow> bool" where
  "isIdentChar c =
     (c \<in> set ''abcdefghijklmnopqrstuvwxyzABCDEFGHIJKLMNOPQRSTUVWXYZ0123456789_-'')"

definition isDigit :: "char \<Rightarrow> bool" where
  "isDigit c = (c \<in> set ''0123456789'')"

fun validIdent :: "string \<Rightarrow> bool" where
  "validIdent [] = False"
| "validIdent [c] = (isIdentChar c \<and> \<not> isDigit c \<and> c \<noteq> CHR ''-'')"
| "validIdent (c # c' # cs) =
     (list_all isIdentChar (c # c' # cs) \<and> \<not> isDigit c
      \<and> (if c = CHR ''-'' then \<not> isDigit c' else True))"

function parseSimples :: "string \<Rightarrow> simple list option" where
  "parseSimples [] = Some []"
| "parseSimples (c # cs) =
     (if c = CHR ''.'' then
        (if validIdent (takeWhile isIdentChar cs)
         then map_option (Cons (Class (takeWhile isIdentChar cs)))
                (parseSimples (dropWhile isIdentChar cs))
         else None)
      else if startsWith (c # cs) '':not(.'' then
        (if validIdent (takeWhile isIdentChar (drop 5 cs))
            \<and> startsWith (dropWhile isIdentChar (drop 5 cs)) '')''
         then map_option (Cons (Not_Class (takeWhile isIdentChar (drop 5 cs))))
                (parseSimples (drop 1 (dropWhile isIdentChar (drop 5 cs))))
         else None)
      else None)"
  by pat_completeness auto
termination
proof (relation "measure length")
  show "wf (measure (length :: string \<Rightarrow> nat))" by simp
next
  fix c :: char and cs :: string
  show "(dropWhile isIdentChar cs, c # cs) \<in> measure length"
    by (simp add: length_dropWhile_le le_imp_less_Suc)
next
  fix c :: char and cs :: string
  have "length (dropWhile isIdentChar (drop 5 cs)) \<le> length (drop 5 cs)"
    by (rule length_dropWhile_le)
  then show "(drop 1 (dropWhile isIdentChar (drop 5 cs)), c # cs) \<in> measure length"
    by simp
qed

definition parseCompound :: "string \<Rightarrow> simple list option" where
  "parseCompound s =
     (case s of [] \<Rightarrow> None
      | c # cs \<Rightarrow>
          if c = CHR ''*'' then map_option (Cons Universal) (parseSimples cs)
          else if isIdentChar c then
            (if validIdent (takeWhile isIdentChar s)
             then map_option (Cons (Type (takeWhile isIdentChar s)))
                    (parseSimples (dropWhile isIdentChar s))
             else None)
          else parseSimples s)"

text \<open>The pieces of a selector between spaces.\<close>

fun splitSpaces :: "string \<Rightarrow> string \<Rightarrow> string list" where
  "splitSpaces cur [] = (if cur = [] then [] else [cur])"
| "splitSpaces cur (c # cs) =
     (if c = CHR '' '' then (if cur = [] then splitSpaces [] cs else cur # splitSpaces [] cs)
      else splitSpaces (cur @ [c]) cs)"

fun parseTail :: "complex \<Rightarrow> string list \<Rightarrow> complex option" where
  "parseTail l [] = Some l"
| "parseTail l [t] =
     (if t = ''>'' then None
      else (case parseCompound t of None \<Rightarrow> None | Some c \<Rightarrow> Some (Comb l Descendant c)))"
| "parseTail l (t # u # us) =
     (if t = ''>'' then
        (case parseCompound u of None \<Rightarrow> None | Some c \<Rightarrow> parseTail (Comb l Child c) us)
      else (case parseCompound t of None \<Rightarrow> None
            | Some c \<Rightarrow> parseTail (Comb l Descendant c) (u # us)))"

definition parseSelector :: "string \<Rightarrow> complex option" where
  "parseSelector s =
     (case splitSpaces [] s of [] \<Rightarrow> None
      | t # ts \<Rightarrow> (case parseCompound t of None \<Rightarrow> None | Some c \<Rightarrow> parseTail (Single c) ts))"

fun matchesSimple :: "document \<Rightarrow> nat \<Rightarrow> simple \<Rightarrow> bool" where
  "matchesSimple d i Universal = True"
| "matchesSimple d i (Type t) = (toLowerCase (tagName (d ! i)) = toLowerCase t)"
| "matchesSimple d i (Class c) = (c \<in> set (classList (d ! i)))"
| "matchesSimple d i (Not_Class c) = (c \<notin> set (classList (d ! i)))"

fun matches :: "document \<Rightarrow> complex \<Rightarrow> nat \<Rightarrow> bool" where
  "matches d (Single c) i = (i < length d \<and> list_all (matchesSimple d i) c)"
| "matches d (Comb l Child c) i =
     (i < length d \<and> list_all (matchesSimple d i) c
      \<and> (case parentOf d i of None \<Rightarrow> False | Some p \<Rightarrow> matches d l p))"
| "matches d (Comb l Descendant c) i =
     (i < length d \<and> list_all (matchesSimple d i) c \<and> list_ex (matches d l) (ancestors d i))"

definition querySelectorAll :: "document \<Rightarrow> string \<Rightarrow> error + nat list" where
  "querySelectorAll d selector =
     (case parseSelector selector of None \<Rightarrow> Inl SyntaxError
      | Some sel \<Rightarrow> Inr (filter (matches d sel) [0..<length d]))"

definition querySelector :: "document \<Rightarrow> string \<Rightarrow> error + nat option" where
  "querySelector d selector =
     (case parseSelector selector of None \<Rightarrow> Inl SyntaxError
      | Some sel \<Rightarrow> Inr (find (matches d sel) [0..<length d]))"

text \<open>\<^verbatim>\<open>element.querySelector(selector)\<close>: the first descendant that matches.\<close>

definition element_querySelector :: "document \<Rightarrow> nat \<Rightarrow> string \<Rightarrow> error + nat option" where
  "element_querySelector d root selector =
     (case parseSelector selector of None \<Rightarrow> Inl SyntaxError
      | Some sel \<Rightarrow>
          Inr (find (\<lambda>j. root \<in> set (ancestors d j) \<and> matches d sel j) [0..<length d]))"

text \<open>\<^verbatim>\<open>element.closest(selector)\<close>: the element or its nearest ancestor that matches.\<close>

definition closest :: "document \<Rightarrow> string \<Rightarrow> nat \<Rightarrow> error + nat option" where
  "closest d selector i =
     (case parseSelector selector of None \<Rightarrow> Inl SyntaxError
      | Some sel \<Rightarrow> Inr (find (matches d sel) (i # ancestors d i)))"

section \<open>The scroll animation system\<close>

text \<open>
  The state the class \<^verbatim>\<open>ScrollAnimation\<close> works on: the document, whether the window
  has \<^verbatim>\<open>IntersectionObserver\<close>, the observation targets of \<^verbatim>\<open>this.observer\<close>
  (\<open>None\<close> as long as no observer was created), the callbacks given to
  \<^verbatim>\<open>requestAnimationFrame\<close> that have not run yet (each one is the closure of
  \<^verbatim>\<open>handleIntersection\<close>, known by the element it captured), the pending timers and the
  warnings written to the console.
\<close>

datatype task = FallbackReveal

record page =
  doc :: document
  hasIntersectionObserver :: bool
  observer :: "nat list option"
  rafQueue :: "nat list"
  timers :: "(nat \<times> task) list"
  console :: "string list"

record entry =
  target :: nat
  isIntersecting :: bool

subsection \<open>The constructor's lists\<close>

definition animationClasses :: "string list" where
  "animationClasses =
     [''fade-in-up'', ''fade-in-down'', ''fade-in-left'', ''fade-in-right'', ''scale-in'']"

definition targetElements :: "string list" where
  "targetElements =
     [''h1'', ''h2'', ''h3'', ''h4'', ''h5'', ''h6'',
      ''p'', ''span'', ''div'',
      ''form'', ''input'', ''textarea'', ''button'',
      ''.card'', ''.service-card'', ''.stat-card'',
      ''.contact__item'', ''.about__text'', ''.hero__text'',
      ''.footer__section:not(.footer__bottom)'', ''.social-link'',
      ''.services-overview__title'', ''.why-choose-services__title'',
      ''.service-process__title'',
      ''.cta__title'', ''.services-hero__title'']"

definition excludedElements :: "string list" where
  "excludedElements =
     [''.footer__bottom'',
      ''.footer__bottom *'',
      ''.footer__copyright'',
      ''.footer__bottom-links'',
      ''.footer__bottom-content'']"

subsection \<open>isElementExcluded\<close>

text \<open>The function given to \<^verbatim>\<open>some\<close>, for one selector of the list.\<close>

definition excludedBy :: "document \<Rightarrow> nat \<Rightarrow> string \<Rightarrow> error + bool" where
  "excludedBy d element selector =
     (if includes_str selector ''*'' then
        (case closest d (replace selector '' *'' []) element of
           Inl e \<Rightarrow> Inl e
         | Inr r \<Rightarrow> Inr (r \<noteq> None))
      else if startsWith selector ''.'' then
        Inr (classList_contains d element (slice1 selector))
      else
        Inr (element < length d
             \<and> toLowerCase (tagName (d ! element)) = toLowerCase selector))"

text \<open>\<^verbatim>\<open>some\<close> stops at the first selector that answers true, and at one that throws.\<close>

fun some_excludedBy :: "document \<Rightarrow> nat \<Rightarrow> string list \<Rightarrow> error + bool" where
  "some_excludedBy d element [] = Inr False"
| "some_excludedBy d element (selector # rest) =
     (case excludedBy d element selector of
        Inl e \<Rightarrow> Inl e
      | Inr b \<Rightarrow> if b then Inr True else some_excludedBy d element rest)"

definition isElementExcluded :: "document \<Rightarrow> nat \<Rightarrow> error + bool" where
  "isElementExcluded d element = some_excludedBy d element excludedElements"

subsection \<open>handleIntersection and the callback it schedules\<close>

definition handleIntersection :: "entry list \<Rightarrow> page \<Rightarrow> page" where
  "handleIntersection entries s =
     s\<lparr>rafQueue := rafQueue s @ map target (filter isIntersecting entries)\<rparr>"

text \<open>\<^verbatim>\<open>observer.observe\<close> and \<^verbatim>\<open>observer.unobserve\<close> on the list of targets.\<close>

definition observe :: "nat \<Rightarrow> nat list \<Rightarrow> nat list" where
  "observe element targets = (if element \<in> set targets then targets else targets @ [element])"

definition unobserve :: "nat \<Rightarrow> nat list \<Rightarrow> nat list" where
  "unobserve element targets = removeAll element targets"

text \<open>The function given to \<^verbatim>\<open>requestAnimationFrame\<close>, for the element it captured.\<close>

definition animationFrameCallback :: "nat \<Rightarrow> page \<Rightarrow> page outcome" where
  "animationFrameCallback element s =
     (case observer s of
        None \<Rightarrow> Threw TypeError (s\<lparr>doc := classList_add ''active'' element (doc s)\<rparr>)
      | Some targets \<Rightarrow>
          Done (s\<lparr>doc := setAttribute ''data-animated'' ''true'' element
                          (classList_add ''active'' element (doc s)),
                  observer := Some (unobserve element targets)\<rparr>))"

text \<open>
  The browser runs the pending callbacks at the next frame, in the order they were
  scheduled; an exception ends the callback that threw it and no other.
\<close>

definition runFrame :: "page \<Rightarrow> page" where
  "runFrame s =
     fold (\<lambda>element s'. stateOf (animationFrameCallback element s')) (rafQueue s)
       (s\<lparr>rafQueue := []\<rparr>)"

subsection \<open>observeElements\<close>

definition hasAnimationClass :: "document \<Rightarrow> nat \<Rightarrow> bool" where
  "hasAnimationClass d element = list_ex (classList_contains d element) animationClasses"

text \<open>
  The loops of \<^verbatim>\<open>observeElements\<close> carry the document, the array
  \<^verbatim>\<open>elementsToAnimate\<close> and the exception thrown so far: once one is thrown the rest of
  the loop is skipped.
\<close>

type_synonym scan = "document \<times> nat list \<times> error option"

fun scanElement :: "nat \<Rightarrow> scan \<Rightarrow> scan" where
  "scanElement element (d, elementsToAnimate, Some e) = (d, elementsToAnimate, Some e)"
| "scanElement element (d, elementsToAnimate, None) =
     (if getAttribute d element ''data-animated'' = Some ''true'' then (d, elementsToAnimate, None)
      else (case isElementExcluded d element of
              Inl e \<Rightarrow> (d, elementsToAnimate, Some e)
            | Inr excluded \<Rightarrow>
                if excluded then (d, elementsToAnimate, None)
                else ((if hasAnimationClass d element then d
                       else classList_add ''fade-in-up'' element d),
                      elementsToAnimate @ [element], None)))"

fun scanSelector :: "string \<Rightarrow> scan \<Rightarrow> scan" where
  "scanSelector selector (d, elementsToAnimate, Some e) = (d, elementsToAnimate, Some e)"
| "scanSelector selector (d, elementsToAnimate, None) =
     (case querySelectorAll d selector of
        Inl e \<Rightarrow> (d, elementsToAnimate, Some e)
      | Inr elements \<Rightarrow> fold scanElement elements (d, elementsToAnimate, None))"

definition observeElements :: "page \<Rightarrow> page outcome" where
  "observeElements s =
     (case fold scanSelector targetElements (doc s, [], None) of
        (d, elementsToAnimate, Some e) \<Rightarrow> Threw e (s\<lparr>doc := d\<rparr>)
      | (d, elementsToAnimate, None) \<Rightarrow>
          (case observer s of
             None \<Rightarrow> if elementsToAnimate = [] then Done (s\<lparr>doc := d\<rparr>)
                     else Threw TypeError (s\<lparr>doc := d\<rparr>)
           | Some targets \<Rightarrow>
               Done (s\<lparr>doc := d, observer := Some (fold observe elementsToAnimate targets)\<rparr>)))"

text \<open>
  \<^verbatim>\<open>document.querySelectorAll(selector).forEach(body)\<close>, as one round of a loop over
  selectors that carries the document and the exception thrown so far.
\<close>

fun forEachMatch ::
  "(nat \<Rightarrow> document \<Rightarrow> document) \<Rightarrow> string \<Rightarrow> document \<times> error option
     \<Rightarrow> document \<times> error option" where
  "forEachMatch body selector (d, Some e) = (d, Some e)"
| "forEachMatch body selector (d, None) =
     (case querySelectorAll d selector of
        Inl e \<Rightarrow> (d, Some e)
      | Inr elements \<Rightarrow> (fold body elements d, None))"

subsection \<open>init and the fallback\<close>

definition fallbackAnimation :: "page \<Rightarrow> page" where
  "fallbackAnimation s =
     s\<lparr>console := console s @ [''Intersection Observer not supported. Using fallback animation.''],
       timers := timers s @ [(100, FallbackReveal)]\<rparr>"

text \<open>The function \<^verbatim>\<open>fallbackAnimation\<close> gives to \<^verbatim>\<open>setTimeout\<close>.\<close>

definition revealElement :: "nat \<Rightarrow> document \<Rightarrow> document" where
  "revealElement element d =
     (if \<not> classList_contains d element ''active''
      then classList_add ''active'' element (classList_add ''fade-in-up'' element d)
      else d)"

definition fallbackTimeout :: "page \<Rightarrow> page outcome" where
  "fallbackTimeout s =
     (case fold (forEachMatch revealElement) targetElements (doc s, None) of
        (d, Some e) \<Rightarrow> Threw e (s\<lparr>doc := d\<rparr>)
      | (d, None) \<Rightarrow> Done (s\<lparr>doc := d\<rparr>))"

text \<open>
  \<^verbatim>\<open>init\<close>. The observers of mutations and of resizes it installs in the supported case
  do nothing but call \<^verbatim>\<open>observeElements\<close> later.
\<close>

definition init :: "page \<Rightarrow> page outcome" where
  "init s =
     (if \<not> hasIntersectionObserver s then Done (fallbackAnimation s)
      else observeElements (s\<lparr>observer := Some []\<rparr>))"

subsection \<open>triggerAnimation and resetAnimations\<close>

datatype selectorOrElement = Selector string | Element nat

definition triggerElement :: "nat \<Rightarrow> document \<Rightarrow> document" where
  "triggerElement element d =
     (if \<not> classList_contains d element ''active''
      then setAttribute ''data-animated'' ''true'' element (classList_add ''active'' element d)
      else d)"

text \<open>
  \<^verbatim>\<open>triggerAnimation\<close> is called from outside with any selector or element. What
  \<^verbatim>\<open>document.querySelectorAll\<close> answers to a selector of the caller is the browser's
  affair: \<open>browser d selector\<close> is that answer on the document \<open>d\<close>, the elements that
  match or the exception thrown. \<open>querySelectorAll\<close> above is one such browser.
\<close>

type_synonym browser = "document \<Rightarrow> string \<Rightarrow> error + nat list"

fun triggerAnimation :: "browser \<Rightarrow> selectorOrElement \<Rightarrow> page \<Rightarrow> page outcome" where
  "triggerAnimation browser (Selector selector) s =
     (case browser (doc s) selector of
        Inl e \<Rightarrow> Threw e s
      | Inr elements \<Rightarrow> Done (s\<lparr>doc := fold triggerElement elements (doc s)\<rparr>))"
| "triggerAnimation browser (Element element) s =
     Done (s\<lparr>doc := fold triggerElement [element] (doc s)\<rparr>)"

definition resetElement :: "nat \<Rightarrow> document \<Rightarrow> document" where
  "resetElement element d =
     removeAttribute ''data-animated'' element (classList_remove ''active'' element d)"

definition resetAnimations :: "page \<Rightarrow> page outcome" where
  "resetAnimations s =
     (case fold (forEachMatch resetElement) targetElements (doc s, None) of
        (d, Some e) \<Rightarrow> Threw e (s\<lparr>doc := d\<rparr>)
      | (d, None) \<Rightarrow> observeElements (s\<lparr>doc := d\<rparr>))"


section \<open>What the browser does with the page\<close>

subsection \<open>The scan-and-watch path\<close>

text \<open>
  What happens to a page once \<^verbatim>\<open>init\<close> has created the observer: a rescan (after a
  resize, a mutation or the page becoming visible again, each of which calls
  \<^verbatim>\<open>observeElements\<close>), a notification of the observer (a call of
  \<^verbatim>\<open>handleIntersection\<close>), or a frame (the browser runs the scheduled callbacks).
\<close>

datatype event = Rescan | Notify "entry list" | Frame

fun step :: "event \<Rightarrow> page \<Rightarrow> page" where
  "step Rescan s = stateOf (observeElements s)"
| "step (Notify entries) s = handleIntersection entries s"
| "step Frame s = runFrame s"

fun run :: "event list \<Rightarrow> page \<Rightarrow> page" where
  "run [] s = s"
| "run (ev # evs) s = run evs (step ev s)"

text \<open>
  The elements on which the scheduled callback ran, one entry for each run of the
  callback, in the order of the runs.
\<close>

fun activations :: "event list \<Rightarrow> page \<Rightarrow> nat list" where
  "activations [] s = []"
| "activations (Frame # evs) s = rafQueue s @ activations evs (step Frame s)"
| "activations (ev # evs) s = activations evs (step ev s)"

definition watched :: "page \<Rightarrow> nat \<Rightarrow> bool" where
  "watched s element = (case observer s of None \<Rightarrow> False | Some targets \<Rightarrow> element \<in> set targets)"

text \<open>
  An observer reports entries for its observation targets only, so a sequence of events
  can happen when every entry of every notification is about an element that is watched
  at that moment.
\<close>

definition delivered :: "entry list \<Rightarrow> page \<Rightarrow> bool" where
  "delivered entries s = list_all (\<lambda>entry. watched s (target entry)) entries"

fun deliverable :: "event list \<Rightarrow> page \<Rightarrow> bool" where
  "deliverable [] s = True"
| "deliverable (Notify entries # evs) s =
     (delivered entries s \<and> deliverable evs (step (Notify entries) s))"
| "deliverable (ev # evs) s = deliverable evs (step ev s)"

subsection \<open>Timers\<close>

text \<open>What the browser does with a timer that is due.\<close>

fun runTask :: "task \<Rightarrow> page \<Rightarrow> page outcome" where
  "runTask FallbackReveal s = fallbackTimeout s"

section \<open>The mobile menu\<close>

text \<open>
  The handler of \<^verbatim>\<open>DOMContentLoaded\<close> looks up the toggle and the navigation bar and,
  when it finds both, installs three click listeners: on the toggle, on every link of
  the navigation list, and on the document. The closures keep the elements found at
  that moment.
\<close>

record menu =
  mobileMenuToggle :: nat
  navbar :: nat
  navLinks :: "nat list"

definition menuSetup :: "document \<Rightarrow> menu option" where
  "menuSetup d =
     (case querySelector d ''.mobile-menu-toggle'' of
        Inr (Some toggle) \<Rightarrow>
          (case querySelector d ''.navbar'' of
             Inr (Some bar) \<Rightarrow>
               (case querySelectorAll d ''.navbar .nav-list a'' of
                  Inr links \<Rightarrow> Some \<lparr>mobileMenuToggle = toggle, navbar = bar, navLinks = links\<rparr>
                | Inl e \<Rightarrow> None)
           | _ \<Rightarrow> None)
      | _ \<Rightarrow> None)"

text \<open>
  \<^verbatim>\<open>const icon = mobileMenuToggle.querySelector('i'); icon.className = name\<close>: the
  assignment throws a \<open>TypeError\<close> when there is no icon.
\<close>

definition setIcon :: "menu \<Rightarrow> string \<Rightarrow> document \<Rightarrow> document outcome" where
  "setIcon m name d =
     (case element_querySelector d (mobileMenuToggle m) ''i'' of
        Inl e \<Rightarrow> Threw e d
      | Inr None \<Rightarrow> Threw TypeError d
      | Inr (Some icon) \<Rightarrow> Done (set_className name icon d))"

text \<open>The listener of the toggle.\<close>

definition toggleClick :: "menu \<Rightarrow> document \<Rightarrow> document outcome" where
  "toggleClick m d =
     setIcon m
       (if classList_contains (classList_toggle ''active'' (navbar m) d) (navbar m) ''active''
        then ''ri-close-line'' else ''ri-menu-line'')
       (classList_toggle ''active'' (navbar m) d)"

text \<open>The listener of a link.\<close>

definition linkClick :: "menu \<Rightarrow> document \<Rightarrow> document outcome" where
  "linkClick m d = setIcon m ''ri-menu-line'' (classList_remove ''active'' (navbar m) d)"

text \<open>The listener of the document, for a click whose \<^verbatim>\<open>e.target\<close> is \<open>clicked\<close>.\<close>

definition documentClick :: "menu \<Rightarrow> nat \<Rightarrow> document \<Rightarrow> document outcome" where
  "documentClick m clicked d =
     (if \<not> contains_node d (navbar m) clicked \<and> \<not> contains_node d (mobileMenuToggle m) clicked
      then setIcon m ''ri-menu-line'' (classList_remove ''active'' (navbar m) d)
      else Done d)"

text \<open>
  A click on an element of the document. The event goes from that element up through its
  ancestors to the document; at each node the listeners installed on it run in the order
  they were installed. An exception ends the listener that threw it and no other.
\<close>

definition listenersAt :: "menu \<Rightarrow> nat \<Rightarrow> (document \<Rightarrow> document outcome) list" where
  "listenersAt m node =
     (if node = mobileMenuToggle m then [toggleClick m] else [])
     @ map (\<lambda>link. linkClick m) (filter (\<lambda>link. link = node) (navLinks m))"

definition click :: "menu \<Rightarrow> nat \<Rightarrow> document \<Rightarrow> document" where
  "click m clicked d =
     stateOf (documentClick m clicked
       (fold (\<lambda>listener d'. stateOf (listener d'))
          (concat (map (listenersAt m) (clicked # ancestors d clicked))) d))"

section \<open>What the selectors of the lists look at\<close>

text \<open>
  The scripts write the classes \<^verbatim>\<open>fade-in-up\<close> and \<^verbatim>\<open>active\<close> and the attribute
  \<^verbatim>\<open>data-animated\<close>, and nothing else. \<open>strip C\<close> is what is left of an element when
  its attributes and the classes of \<open>C\<close> are forgotten: two documents that agree on it
  give the same answer to every selector that mentions no class of \<open>C\<close>.
\<close>

definition strip :: "string list \<Rightarrow> element \<Rightarrow> string \<times> nat option \<times> string list" where
  "strip C e = (tagName e, parentNode e, filter (\<lambda>c. c \<notin> set C) (classList e))"

fun simpleClasses :: "simple \<Rightarrow> string list" where
  "simpleClasses (Class c) = [c]"
| "simpleClasses (Not_Class c) = [c]"
| "simpleClasses Universal = []"
| "simpleClasses (Type t) = []"

fun mentioned :: "complex \<Rightarrow> string list" where
  "mentioned (Single c) = concat (map simpleClasses c)"
| "mentioned (Comb l k c) = mentioned l @ concat (map simpleClasses c)"

definition stableSelector :: "string list \<Rightarrow> string \<Rightarrow> bool" where
  "stableSelector C selector =
     (case parseSelector selector of None \<Rightarrow> True
      | Some sel \<Rightarrow> list_all (\<lambda>c. c \<notin> set C) (mentioned sel))"

lemma strip_length: "map (strip C) d' = map (strip C) d \<Longrightarrow> length d' = length d"
  by (rule map_eq_imp_length_eq)

lemma strip_nth:
  assumes "map (strip C) d' = map (strip C) d" and "i < length d"
  shows "strip C (d' ! i) = strip C (d ! i)"
proof -
  have len: "length d' = length d" using assms(1) by (rule strip_length)
  have "map (strip C) d' ! i = map (strip C) d ! i" by (simp only: assms(1))
  then show ?thesis using assms(2) len by (simp only: nth_map)
qed

lemma strip_tagName:
  "map (strip C) d' = map (strip C) d \<Longrightarrow> i < length d \<Longrightarrow> tagName (d' ! i) = tagName (d ! i)"
  by (drule (1) strip_nth) (simp add: strip_def)

lemma strip_parentNode:
  "map (strip C) d' = map (strip C) d \<Longrightarrow> i < length d \<Longrightarrow> parentNode (d' ! i) = parentNode (d ! i)"
  by (drule (1) strip_nth) (simp add: strip_def)

lemma strip_class:
  assumes "map (strip C) d' = map (strip C) d" and "i < length d" and "c \<notin> set C"
  shows "c \<in> set (classList (d' ! i)) \<longleftrightarrow> c \<in> set (classList (d ! i))"
proof -
  have "strip C (d' ! i) = strip C (d ! i)"
    using assms(1,2) by (rule strip_nth)
  then have "set (filter (\<lambda>c. c \<notin> set C) (classList (d' ! i)))
      = set (filter (\<lambda>c. c \<notin> set C) (classList (d ! i)))"
    by (simp add: strip_def)
  with assms(3) show ?thesis by auto
qed

lemma strip_classList_contains:
  assumes "map (strip C) d' = map (strip C) d" and "c \<notin> set C"
  shows "classList_contains d' i c = classList_contains d i c"
  using strip_class [OF assms(1) _ assms(2), of i] strip_length [OF assms(1)]
  by (auto simp: classList_contains_def)

lemma strip_parentOf:
  assumes "map (strip C) d' = map (strip C) d"
  shows "parentOf d' i = parentOf d i"
  using strip_parentNode [OF assms, of i] strip_length [OF assms]
  by (simp add: parentOf_def)

lemma strip_ancestors:
  assumes "map (strip C) d' = map (strip C) d"
  shows "ancestors d' i = ancestors d i"
proof (induction i rule: less_induct)
  case (less i)
  have e: "parentOf d' i = parentOf d i"
    using assms by (rule strip_parentOf)
  show ?case
  proof (cases "parentOf d i")
    case None
    show ?thesis
      by (subst ancestors.simps, subst (2) ancestors.simps) (simp add: e None)
  next
    case (Some p)
    then have "ancestors d' p = ancestors d p"
      by (intro less.IH parentOf_less)
    then show ?thesis
      by (subst ancestors.simps, subst (2) ancestors.simps) (simp add: e Some)
  qed
qed

lemma strip_matchesSimple:
  assumes "map (strip C) d' = map (strip C) d" and "i < length d"
    and "\<forall>c\<in>set (simpleClasses x). c \<notin> set C"
  shows "matchesSimple d' i x = matchesSimple d i x"
  using strip_class [OF assms(1,2)] strip_tagName [OF assms(1,2)] assms(3)
  by (cases x) auto

lemma strip_matchesCompound:
  assumes "map (strip C) d' = map (strip C) d" and "i < length d"
    and "\<forall>c\<in>set (concat (map simpleClasses xs)). c \<notin> set C"
  shows "list_all (matchesSimple d' i) xs = list_all (matchesSimple d i) xs"
  using assms(3)
  by (induction xs) (auto simp: strip_matchesSimple [OF assms(1,2)])

lemma strip_matches:
  assumes "map (strip C) d' = map (strip C) d"
    and "list_all (\<lambda>c. c \<notin> set C) (mentioned sel)"
  shows "matches d' sel i = matches d sel i"
  using assms(2)
proof (induction sel arbitrary: i)
  case (Single c)
  then show ?case
    using strip_matchesCompound [OF assms(1), of i c] strip_length [OF assms(1)]
    by (auto simp: list_all_iff)
next
  case (Comb l k c)
  have l: "\<And>j. matches d' l j = matches d l j"
    using Comb by simp
  have c: "i < length d \<Longrightarrow> list_all (matchesSimple d' i) c = list_all (matchesSimple d i) c"
    using strip_matchesCompound [OF assms(1), of i c] Comb.prems
    by (auto simp: list_all_iff)
  show ?case
    using l c strip_length [OF assms(1)] strip_parentOf [OF assms(1), of i]
      strip_ancestors [OF assms(1), of i]
    by (cases k) (auto simp: list_ex_iff split: option.splits)
qed

lemma strip_querySelectorAll:
  assumes "map (strip C) d' = map (strip C) d" and "stableSelector C selector"
  shows "querySelectorAll d' selector = querySelectorAll d selector"
proof (cases "parseSelector selector")
  case None
  then show ?thesis by (simp add: querySelectorAll_def)
next
  case (Some sel)
  then have "matches d' sel = matches d sel"
    using assms(2) strip_matches [OF assms(1)] by (auto simp: stableSelector_def)
  then show ?thesis
    using Some strip_length [OF assms(1)] by (simp add: querySelectorAll_def)
qed

lemma strip_closest:
  assumes "map (strip C) d' = map (strip C) d" and "stableSelector C selector"
  shows "closest d' selector i = closest d selector i"
proof (cases "parseSelector selector")
  case None
  then show ?thesis by (simp add: closest_def)
next
  case (Some sel)
  then have "matches d' sel = matches d sel"
    using assms(2) strip_matches [OF assms(1)] by (auto simp: stableSelector_def)
  then show ?thesis
    using Some strip_ancestors [OF assms(1), of i] by (simp add: closest_def)
qed

subsection \<open>What the writes leave alone\<close>

lemma map_update_same: "i < length d \<Longrightarrow> f e = f (d ! i) \<Longrightarrow> map f (d[i := e]) = map f d"
  by (simp add: map_update list_update_same_conv)

lemma strip_classList_add: "c \<in> set C \<Longrightarrow> map (strip C) (classList_add c i d) = map (strip C) d"
  by (simp add: classList_add_def map_update_same strip_def)

lemma filter_removeAll_other: "\<not> P c \<Longrightarrow> filter P (removeAll c xs) = filter P xs"
  by (induction xs) auto

lemma strip_classList_remove: "c \<in> set C \<Longrightarrow> map (strip C) (classList_remove c i d) = map (strip C) d"
  by (simp add: classList_remove_def map_update_same strip_def filter_removeAll_other)

lemma strip_setAttribute: "map (strip C) (setAttribute k v i d) = map (strip C) d"
  by (simp add: setAttribute_def map_update_same strip_def)

lemma strip_removeAttribute: "map (strip C) (removeAttribute k i d) = map (strip C) d"
  by (simp add: removeAttribute_def map_update_same strip_def)

lemma attributes_classList_add: "map attributes (classList_add c i d) = map attributes d"
  by (simp add: classList_add_def map_update_same)

lemma attributes_classList_remove: "map attributes (classList_remove c i d) = map attributes d"
  by (simp add: classList_remove_def map_update_same)

lemma getAttribute_cong:
  assumes "map attributes d' = map attributes d"
  shows "getAttribute d' i k = getAttribute d i k"
proof -
  have len: "length d' = length d" using assms by (rule map_eq_imp_length_eq)
  have "i < length d \<Longrightarrow> map attributes d' ! i = map attributes d ! i" by (simp only: assms)
  then show ?thesis using len by (simp add: getAttribute_def)
qed


section \<open>Exclusion\<close>

text \<open>
  The exclusion rule in the words of the specification: a selector with a wildcard suffix
  means this element or any descendant of the base selector, a class selector means the
  element has this class, a bare name means the element is of this type.
\<close>

definition wildcardBase :: "string \<Rightarrow> string option" where
  "wildcardBase selector =
     (if 2 \<le> length selector \<and> drop (length selector - 2) selector = '' *''
      then Some (take (length selector - 2) selector) else None)"

definition denotes :: "document \<Rightarrow> nat \<Rightarrow> string \<Rightarrow> bool" where
  "denotes d i selector =
     (i < length d \<and>
      (if startsWith selector ''.'' then drop 1 selector \<in> set (classList (d ! i))
       else toLowerCase (tagName (d ! i)) = toLowerCase selector))"

definition excludedBySpec :: "document \<Rightarrow> nat \<Rightarrow> string \<Rightarrow> bool" where
  "excludedBySpec d i selector =
     (case wildcardBase selector of
        None \<Rightarrow> denotes d i selector
      | Some base \<Rightarrow> list_ex (\<lambda>a. denotes d a base) (i # ancestors d i))"

definition matchesExclusion :: "document \<Rightarrow> nat \<Rightarrow> bool" where
  "matchesExclusion d i = list_ex (excludedBySpec d i) excludedElements"

definition footerBottom :: "document \<Rightarrow> nat \<Rightarrow> bool" where
  "footerBottom d a = classList_contains d a ''footer__bottom''"

lemma matchesExclusion_unfold:
  "matchesExclusion d i =
     (classList_contains d i ''footer__bottom''
      \<or> list_ex (footerBottom d) (i # ancestors d i)
      \<or> classList_contains d i ''footer__copyright''
      \<or> classList_contains d i ''footer__bottom-links''
      \<or> classList_contains d i ''footer__bottom-content'')"
proof -
  have w: "wildcardBase ''.footer__bottom'' = None"
    "wildcardBase ''.footer__bottom *'' = Some ''.footer__bottom''"
    "wildcardBase ''.footer__copyright'' = None"
    "wildcardBase ''.footer__bottom-links'' = None"
    "wildcardBase ''.footer__bottom-content'' = None"
    by code_simp+
  have f: "denotes d = (\<lambda>a sel. if startsWith sel ''.'' then classList_contains d a (drop 1 sel)
             else a < length d \<and> toLowerCase (tagName (d ! a)) = toLowerCase sel)"
    by (intro ext) (auto simp: denotes_def classList_contains_def)
  show ?thesis
    unfolding matchesExclusion_def excludedElements_def excludedBySpec_def footerBottom_def
    by (simp add: w f startsWith_def) 
qed

lemma includes_char: "includes_str s [c] = (c \<in> set s)"
  by (induction s) (auto simp: startsWith_def)

lemma find_list_ex: "(find P xs \<noteq> None) = list_ex P xs"
  by (auto simp: find_None_iff list_ex_iff)

lemma find_Some_list_ex: "find P xs = Some y \<Longrightarrow> list_ex P xs"
  by (induction xs) (auto split: if_splits)

lemma find_None_list_ex: "find P xs = None \<Longrightarrow> \<not> list_ex P xs"
  by (induction xs) (auto split: if_splits)

lemma isElementExcluded_spec: "isElementExcluded d i = Inr (matchesExclusion d i)"
proof -
  have p: "parseSelector ''.footer__bottom'' = Some (Single [Class ''footer__bottom''])"
    by code_simp
  have r: "replace ''.footer__bottom *'' '' *'' [] = ''.footer__bottom''"
    by code_simp
  have m: "matches d (Single [Class ''footer__bottom'']) = footerBottom d"
    by (intro ext) (simp add: footerBottom_def classList_contains_def)
  have c: "closest d ''.footer__bottom'' i = Inr (find (footerBottom d) (i # ancestors d i))"
    by (simp only: closest_def p m option.case)
  show ?thesis
    unfolding isElementExcluded_def excludedElements_def
    by (auto simp add: excludedBy_def includes_char r c startsWith_def slice1_def
        matchesExclusion_unfold dest: find_Some_list_ex find_None_list_ex)
qed


section \<open>What observeElements computes\<close>

definition changing :: "string list" where
  "changing = [''fade-in-up'', ''active'']"

definition alike :: "document \<Rightarrow> document \<Rightarrow> bool" where
  "alike d' d = (map (strip changing) d' = map (strip changing) d
                 \<and> map attributes d' = map attributes d)"

definition isAnimated :: "document \<Rightarrow> nat \<Rightarrow> bool" where
  "isAnimated d i = (getAttribute d i ''data-animated'' = Some ''true'')"

definition survives :: "document \<Rightarrow> nat \<Rightarrow> bool" where
  "survives d i = (\<not> isAnimated d i \<and> \<not> matchesExclusion d i)"

definition addDefault :: "nat \<Rightarrow> document \<Rightarrow> document" where
  "addDefault i d = (if hasAnimationClass d i then d else classList_add ''fade-in-up'' i d)"

definition queried :: "document \<Rightarrow> string \<Rightarrow> nat list" where
  "queried d selector = (case querySelectorAll d selector of Inl e \<Rightarrow> [] | Inr elements \<Rightarrow> elements)"

definition elementsToAnimate :: "document \<Rightarrow> string list \<Rightarrow> nat list" where
  "elementsToAnimate d selectors =
     concat (map (\<lambda>selector. filter (survives d) (queried d selector)) selectors)"

definition parses :: "string \<Rightarrow> bool" where
  "parses selector = (parseSelector selector \<noteq> None)"

lemma targets_parse: "list_all parses targetElements"
  by code_simp

lemma targets_stable: "list_all (stableSelector changing) targetElements"
  by code_simp

lemma alike_refl: "alike d d"
  by (simp add: alike_def)

lemma alike_trans: "alike d'' d' \<Longrightarrow> alike d' d \<Longrightarrow> alike d'' d"
  by (simp add: alike_def)

lemma alike_length: "alike d' d \<Longrightarrow> length d' = length d"
  by (auto simp: alike_def dest: strip_length)

lemma strip_matchesExclusion:
  assumes "map (strip changing) d' = map (strip changing) d"
  shows "matchesExclusion d' i = matchesExclusion d i"
proof -
  have c: "\<And>a c. c \<notin> set changing \<Longrightarrow> classList_contains d' a c = classList_contains d a c"
    using assms by (rule strip_classList_contains)
  have f: "footerBottom d' = footerBottom d"
    by (intro ext) (simp add: footerBottom_def c changing_def)
  show ?thesis
    by (simp add: matchesExclusion_unfold f c changing_def strip_ancestors [OF assms])
qed

lemma alike_matchesExclusion: "alike d' d \<Longrightarrow> matchesExclusion d' i = matchesExclusion d i"
  by (rule strip_matchesExclusion) (simp add: alike_def)

lemma alike_isAnimated: "alike d' d \<Longrightarrow> isAnimated d' i = isAnimated d i"
  using getAttribute_cong [of d' d i] by (simp add: isAnimated_def alike_def)

lemma alike_survives: "alike d' d \<Longrightarrow> survives d' = survives d"
  by (intro ext) (simp add: survives_def alike_isAnimated alike_matchesExclusion)

lemma alike_queried:
  "alike d' d \<Longrightarrow> stableSelector changing selector \<Longrightarrow> queried d' selector = queried d selector"
  using strip_querySelectorAll [of changing d' d selector] by (simp add: queried_def alike_def)

lemma alike_elementsToAnimate:
  assumes "alike d' d" and "list_all (stableSelector changing) selectors"
  shows "elementsToAnimate d' selectors = elementsToAnimate d selectors"
  using assms(2)
  by (induction selectors)
    (simp_all add: elementsToAnimate_def alike_survives [OF assms(1)] alike_queried [OF assms(1)])

lemma alike_addDefault: "alike (addDefault i d) d"
  by (simp add: addDefault_def alike_def strip_classList_add attributes_classList_add changing_def)

lemma alike_fold_addDefault: "alike (fold addDefault is d) d"
proof (induction "is" arbitrary: d)
  case Nil
  show ?case by (simp add: alike_refl)
next
  case (Cons i "is")
  show ?case
    by simp (rule alike_trans [OF Cons alike_addDefault])
qed

lemma scanElement_unfold:
  "scanElement i (d, acc, None) =
     (if survives d i then (addDefault i d, acc @ [i], None) else (d, acc, None))"
  by (simp add: isElementExcluded_spec survives_def isAnimated_def addDefault_def)

lemma fold_scanElement:
  "fold scanElement elements (d, acc, None) =
     (fold addDefault (filter (survives d) elements) d, acc @ filter (survives d) elements, None)"
proof (induction elements arbitrary: d acc)
  case Nil
  show ?case by simp
next
  case (Cons i elements)
  have "survives (addDefault i d) = survives d"
    by (rule alike_survives) (rule alike_addDefault)
  then show ?case
    by (simp add: scanElement_unfold Cons del: scanElement.simps)
qed

lemma scanSelector_unfold:
  assumes "parses selector"
  shows "scanSelector selector (d, acc, None) =
     (fold addDefault (filter (survives d) (queried d selector)) d,
      acc @ filter (survives d) (queried d selector), None)"
proof -
  obtain elements where "querySelectorAll d selector = Inr elements"
    using assms by (auto simp: parses_def querySelectorAll_def)
  then show ?thesis
    by (simp add: queried_def fold_scanElement)
qed

lemma fold_scanSelector:
  assumes "list_all parses selectors" and "list_all (stableSelector changing) selectors"
  shows "fold scanSelector selectors (d, acc, None) =
     (fold addDefault (elementsToAnimate d selectors) d, acc @ elementsToAnimate d selectors, None)"
  using assms
proof (induction selectors arbitrary: d acc)
  case Nil
  show ?case by (simp add: elementsToAnimate_def)
next
  case (Cons selector selectors)
  let ?E = "filter (survives d) (queried d selector)"
  let ?d = "fold addDefault ?E d"
  have a: "alike ?d d" by (rule alike_fold_addDefault)
  have e: "elementsToAnimate ?d selectors = elementsToAnimate d selectors"
    using a Cons.prems(2) by (simp add: alike_elementsToAnimate)
  have "fold scanSelector (selector # selectors) (d, acc, None)
      = fold scanSelector selectors (?d, acc @ ?E, None)"
    using Cons.prems(1) by (simp add: scanSelector_unfold del: scanSelector.simps)
  also have "\<dots> = (fold addDefault (elementsToAnimate ?d selectors) ?d,
       (acc @ ?E) @ elementsToAnimate ?d selectors, None)"
    using Cons.prems by (intro Cons.IH) simp_all
  finally show ?case
    unfolding e by (simp add: elementsToAnimate_def)
qed

lemma observeElements_unfold:
  "observeElements s =
     (case observer s of
        None \<Rightarrow>
          if elementsToAnimate (doc s) targetElements = []
          then Done (s\<lparr>doc := fold addDefault (elementsToAnimate (doc s) targetElements) (doc s)\<rparr>)
          else Threw TypeError
                 (s\<lparr>doc := fold addDefault (elementsToAnimate (doc s) targetElements) (doc s)\<rparr>)
      | Some targets \<Rightarrow>
          Done (s\<lparr>doc := fold addDefault (elementsToAnimate (doc s) targetElements) (doc s),
                  observer := Some (fold observe (elementsToAnimate (doc s) targetElements) targets)\<rparr>))"
  by (simp add: observeElements_def fold_scanSelector [OF targets_parse targets_stable])


subsection \<open>Class lists after a write\<close>

lemma classList_contains_add:
  "classList_contains (classList_add c j d) i c' =
     (classList_contains d i c' \<or> (i = j \<and> i < length d \<and> c' = c))"
  by (auto simp: classList_contains_def classList_add_def nth_list_update)

lemma classList_contains_setAttribute [simp]:
  "classList_contains (setAttribute k v j d) i c = classList_contains d i c"
  by (auto simp: classList_contains_def setAttribute_def nth_list_update)

lemma nth_classList_add: "i \<noteq> j \<Longrightarrow> classList_add c j d ! i = d ! i"
  by (simp add: classList_add_def)

lemma nth_setAttribute: "i \<noteq> j \<Longrightarrow> setAttribute k v j d ! i = d ! i"
  by (simp add: setAttribute_def)

lemma length_classList_add [simp]: "length (classList_add c j d) = length d"
  by (simp add: classList_add_def)

lemma length_setAttribute [simp]: "length (setAttribute k v j d) = length d"
  by (simp add: setAttribute_def)

subsection \<open>The default animation class\<close>

lemma length_addDefault [simp]: "length (addDefault j d) = length d"
  by (simp add: addDefault_def)

lemma hasAnimationClass_addDefault:
  "hasAnimationClass (addDefault j d) i = (hasAnimationClass d i \<or> (i = j \<and> i < length d))"
  by (auto simp: addDefault_def hasAnimationClass_def animationClasses_def classList_contains_add)

lemma addDefault_id: "hasAnimationClass d j \<Longrightarrow> addDefault j d = d"
  by (simp add: addDefault_def)

lemma fold_addDefault_id:
  "\<forall>i\<in>set E. hasAnimationClass d i \<Longrightarrow> fold addDefault E d = d"
  by (induction E) (simp_all add: addDefault_id)

lemma length_fold_addDefault [simp]: "length (fold addDefault E d) = length d"
  by (induction E arbitrary: d) simp_all

lemma hasAnimationClass_fold_addDefault:
  "hasAnimationClass (fold addDefault E d) i
     = (hasAnimationClass d i \<or> (i \<in> set E \<and> i < length d))"
  by (induction E arbitrary: d) (auto simp: hasAnimationClass_addDefault)

lemma classList_contains_addDefault:
  "c \<noteq> ''fade-in-up'' \<Longrightarrow> classList_contains (addDefault j d) i c = classList_contains d i c"
  by (auto simp: addDefault_def classList_contains_add)

lemma classList_contains_fold_addDefault:
  "c \<noteq> ''fade-in-up'' \<Longrightarrow> classList_contains (fold addDefault E d) i c = classList_contains d i c"
  by (induction E arbitrary: d) (simp_all add: classList_contains_addDefault)

lemma nth_addDefault: "i \<noteq> j \<Longrightarrow> addDefault j d ! i = d ! i"
  by (simp add: addDefault_def nth_classList_add)

lemma nth_fold_addDefault: "i \<notin> set E \<Longrightarrow> fold addDefault E d ! i = d ! i"
  by (induction E arbitrary: d) (simp_all add: nth_addDefault)

subsection \<open>The elements a scan watches\<close>

lemma queried_less: "i \<in> set (queried d selector) \<Longrightarrow> i < length d"
  by (auto simp: queried_def querySelectorAll_def split: option.splits)

lemma elementsToAnimate_iff:
  "i \<in> set (elementsToAnimate d selectors)
     \<longleftrightarrow> survives d i \<and> (\<exists>selector\<in>set selectors. i \<in> set (queried d selector))"
  by (auto simp: elementsToAnimate_def)

lemma elementsToAnimate_less: "i \<in> set (elementsToAnimate d selectors) \<Longrightarrow> i < length d"
  by (auto simp: elementsToAnimate_iff dest: queried_less)

lemma set_fold_observe: "set (fold observe E targets) = set targets \<union> set E"
  by (induction E arbitrary: targets) (auto simp: observe_def)

lemma distinct_fold_observe: "distinct targets \<Longrightarrow> distinct (fold observe E targets)"
  by (induction E arbitrary: targets) (auto simp: observe_def)

lemma fold_observe_id: "set E \<subseteq> set targets \<Longrightarrow> fold observe E targets = targets"
  by (induction E) (auto simp: observe_def)

lemma observeElements_Some:
  assumes "observer s = Some targets"
  shows "observeElements s =
     Done (s\<lparr>doc := fold addDefault (elementsToAnimate (doc s) targetElements) (doc s),
             observer := Some (fold observe (elementsToAnimate (doc s) targetElements) targets)\<rparr>)"
  by (simp add: observeElements_unfold assms)

lemma rescan_fixed:
  assumes "E = elementsToAnimate d targetElements"
  shows "elementsToAnimate (fold addDefault E d) targetElements = E"
    and "fold addDefault E (fold addDefault E d) = fold addDefault E d"
proof -
  show "elementsToAnimate (fold addDefault E d) targetElements = E"
    unfolding assms
    by (rule alike_elementsToAnimate [OF alike_fold_addDefault targets_stable])
  have "\<forall>i\<in>set E. hasAnimationClass (fold addDefault E d) i"
    using elementsToAnimate_less [of _ d targetElements]
    by (auto simp: hasAnimationClass_fold_addDefault assms)
  then show "fold addDefault E (fold addDefault E d) = fold addDefault E d"
    by (rule fold_addDefault_id)
qed

text \<open>
  C7. Scan-and-watch is idempotent. With an observer whose targets are pairwise distinct,
  \<open>observeElements\<close> returns; a second run, right after, returns the very state the first
  run left (the same targets, the same classes on every element); the targets are still
  pairwise distinct; an element that carries the marker \<^verbatim>\<open>data-animated="true"\<close> is
  left as it is and is not added to the targets; and no element gains or loses the
  class \<^verbatim>\<open>active\<close>.
\<close>

theorem observeElements_idempotent:
  assumes "observer s = Some targets" and "distinct targets"
  shows "\<exists>s1 targets1.
           observeElements s = Done s1 \<and> observer s1 = Some targets1
         \<and> observeElements s1 = Done s1
         \<and> distinct targets1
         \<and> (\<forall>i. isAnimated (doc s) i \<longrightarrow>
                doc s1 ! i = doc s ! i \<and> (i \<in> set targets1 \<longleftrightarrow> i \<in> set targets))
         \<and> (\<forall>i. classList_contains (doc s1) i ''active'' = classList_contains (doc s) i ''active'')"
proof -
  define E where "E = elementsToAnimate (doc s) targetElements"
  define s1 where "s1 = s\<lparr>doc := fold addDefault E (doc s), observer := Some (fold observe E targets)\<rparr>"
  have first: "observeElements s = Done s1"
    by (simp add: observeElements_Some [OF assms(1)] s1_def E_def)
  have obs1: "observer s1 = Some (fold observe E targets)"
    by (simp add: s1_def)
  have "observeElements s1 =
      Done (s1\<lparr>doc := fold addDefault (elementsToAnimate (doc s1) targetElements) (doc s1),
               observer := Some (fold observe (elementsToAnimate (doc s1) targetElements)
                                   (fold observe E targets))\<rparr>)"
    by (rule observeElements_Some [OF obs1])
  also have "elementsToAnimate (doc s1) targetElements = E"
    using rescan_fixed(1) [OF E_def] by (simp add: s1_def)
  also have "fold addDefault E (doc s1) = doc s1"
    using rescan_fixed(2) [OF E_def] by (simp add: s1_def)
  also have "fold observe E (fold observe E targets) = fold observe E targets"
    by (rule fold_observe_id) (simp add: set_fold_observe)
  finally have second: "observeElements s1 = Done s1"
    by (simp add: s1_def)
  have dist: "distinct (fold observe E targets)"
    using assms(2) by (rule distinct_fold_observe)
  have marked: "isAnimated (doc s) i \<Longrightarrow> i \<notin> set E" for i
    by (simp add: E_def elementsToAnimate_iff survives_def)
  have kept: "isAnimated (doc s) i \<Longrightarrow>
      doc s1 ! i = doc s ! i \<and> (i \<in> set (fold observe E targets) \<longleftrightarrow> i \<in> set targets)" for i
    using marked [of i] by (simp add: s1_def nth_fold_addDefault set_fold_observe)
  have active: "classList_contains (doc s1) i ''active'' = classList_contains (doc s) i ''active''" for i
    by (simp add: s1_def classList_contains_fold_addDefault)
  show ?thesis
    using first obs1 second dist kept active by blast
qed


subsection \<open>A page to run the scripts on\<close>

text \<open>
  A card, a footer with its bottom bar and a paragraph in the bar, a heading that was
  animated before, and a span with an animation class of its own.
\<close>

definition exampleDoc :: document where
  "exampleDoc =
     [\<lparr>tagName = ''DIV'', classList = [''card''], attributes = [], parentNode = None\<rparr>,
      \<lparr>tagName = ''FOOTER'', classList = [], attributes = [], parentNode = None\<rparr>,
      \<lparr>tagName = ''DIV'', classList = [''footer__bottom''], attributes = [], parentNode = Some 1\<rparr>,
      \<lparr>tagName = ''P'', classList = [], attributes = [], parentNode = Some 2\<rparr>,
      \<lparr>tagName = ''H2'', classList = [''fade-in-up'', ''active''],
         attributes = [(''data-animated'', ''true'')], parentNode = None\<rparr>,
      \<lparr>tagName = ''SPAN'', classList = [''fade-in-left''], attributes = [], parentNode = None\<rparr>]"

definition examplePage :: page where
  "examplePage =
     \<lparr>doc = exampleDoc, hasIntersectionObserver = True, observer = None, rafQueue = [],
        timers = [], console = []\<rparr>"

text \<open>The page when \<^verbatim>\<open>init\<close> has created the observer, before the first scan.\<close>

definition observingPage :: page where
  "observingPage = examplePage\<lparr>observer := Some []\<rparr>"

definition scannedPage :: page where
  "scannedPage =
     \<lparr>doc =
        [\<lparr>tagName = ''DIV'', classList = [''card'', ''fade-in-up''], attributes = [],
            parentNode = None\<rparr>,
         \<lparr>tagName = ''FOOTER'', classList = [], attributes = [], parentNode = None\<rparr>,
         \<lparr>tagName = ''DIV'', classList = [''footer__bottom''], attributes = [],
            parentNode = Some 1\<rparr>,
         \<lparr>tagName = ''P'', classList = [], attributes = [], parentNode = Some 2\<rparr>,
         \<lparr>tagName = ''H2'', classList = [''fade-in-up'', ''active''],
            attributes = [(''data-animated'', ''true'')], parentNode = None\<rparr>,
         \<lparr>tagName = ''SPAN'', classList = [''fade-in-left''], attributes = [],
            parentNode = None\<rparr>],
      hasIntersectionObserver = True, observer = Some [5, 0], rafQueue = [],
      timers = [], console = []\<rparr>"

lemma observeElements_example: "observeElements observingPage = Done scannedPage"
  by code_simp

theorem observeElements_idempotent_witness:
  "observer observingPage = Some [] \<and> distinct ([] :: nat list)
   \<and> observeElements observingPage = Done scannedPage
   \<and> observeElements scannedPage = Done scannedPage
   \<and> isAnimated (doc observingPage) 4
   \<and> doc scannedPage ! 4 = doc observingPage ! 4
   \<and> 4 \<notin> set [5, 0 :: nat]"
proof -
  have h: "observer observingPage = Some []"
    by (simp add: observingPage_def)
  have a: "isAnimated (doc observingPage) 4"
    by code_simp
  obtain s1 targets1 where
    "observeElements observingPage = Done s1" and "observeElements s1 = Done s1"
    and "\<forall>i. isAnimated (doc observingPage) i \<longrightarrow>
           doc s1 ! i = doc observingPage ! i \<and> (i \<in> set targets1 \<longleftrightarrow> i \<in> set [])"
    using observeElements_idempotent [OF h] by auto
  then show ?thesis
    using h a by (simp add: observeElements_example)
qed


section \<open>Rescans, notifications and frames\<close>

subsection \<open>One run of the scheduled callback\<close>

definition paint :: "nat \<Rightarrow> page \<Rightarrow> page" where
  "paint element s = stateOf (animationFrameCallback element s)"

lemma runFrame_paint: "runFrame s = fold paint (rafQueue s) (s\<lparr>rafQueue := []\<rparr>)"
  by (simp add: runFrame_def paint_def [abs_def])

lemma rafQueue_paint [simp]: "rafQueue (paint j s) = rafQueue s"
  by (simp add: paint_def animationFrameCallback_def split: option.splits)

lemma observer_paint: "observer (paint j s) = map_option (unobserve j) (observer s)"
  by (simp add: paint_def animationFrameCallback_def split: option.splits)

lemma watched_paint: "watched (paint j s) i = (watched s i \<and> i \<noteq> j)"
  by (auto simp: watched_def observer_paint unobserve_def split: option.splits)

lemma strip_paint: "map (strip changing) (doc (paint j s)) = map (strip changing) (doc s)"
  by (simp add: paint_def animationFrameCallback_def strip_setAttribute strip_classList_add
      changing_def split: option.splits)

lemma nth_paint: "i \<noteq> j \<Longrightarrow> doc (paint j s) ! i = doc s ! i"
  by (simp add: paint_def animationFrameCallback_def nth_setAttribute nth_classList_add
      split: option.splits)

lemma length_paint [simp]: "length (doc (paint j s)) = length (doc s)"
  by (simp add: paint_def animationFrameCallback_def split: option.splits)

lemma active_paint:
  "classList_contains (doc (paint j s)) i ''active''
     = (classList_contains (doc s) i ''active'' \<or> (i = j \<and> i < length (doc s)))"
  by (auto simp: paint_def animationFrameCallback_def classList_contains_add split: option.splits)

lemma map_of_attr_update: "map_of (attr_update k v ps) k' = (if k' = k then Some v else map_of ps k')"
  by (induction ps) auto

lemma getAttribute_setAttribute:
  "getAttribute (setAttribute k v j d) i k'
     = (if i = j \<and> i < length d \<and> k' = k then Some v else getAttribute d i k')"
  by (auto simp: getAttribute_def setAttribute_def nth_list_update map_of_attr_update)

lemma getAttribute_classList_add [simp]:
  "getAttribute (classList_add c j d) i k = getAttribute d i k"
  by (auto simp: getAttribute_def classList_add_def nth_list_update)

lemma isAnimated_paint:
  "isAnimated (doc (paint j s)) i
     = (isAnimated (doc s) i \<or> (i = j \<and> i < length (doc s) \<and> observer s \<noteq> None))"
  by (auto simp: paint_def animationFrameCallback_def isAnimated_def getAttribute_setAttribute
      split: option.splits)

subsection \<open>A frame\<close>

lemma rafQueue_fold_paint [simp]: "rafQueue (fold paint js s) = rafQueue s"
  by (induction js arbitrary: s) simp_all

lemma observer_fold_paint_None: "observer s = None \<Longrightarrow> observer (fold paint js s) = None"
  by (induction js arbitrary: s) (simp_all add: observer_paint)

lemma observer_fold_paint_Some:
  "observer s = Some targets \<Longrightarrow> \<exists>targets'. observer (fold paint js s) = Some targets'"
  by (induction js arbitrary: s targets) (simp_all add: observer_paint)

lemma watched_fold_paint: "watched (fold paint js s) i = (watched s i \<and> i \<notin> set js)"
  by (induction js arbitrary: s) (auto simp: watched_paint)

lemma strip_fold_paint:
  "map (strip changing) (doc (fold paint js s)) = map (strip changing) (doc s)"
  by (induction js arbitrary: s) (simp_all add: strip_paint)

lemma nth_fold_paint: "i \<notin> set js \<Longrightarrow> doc (fold paint js s) ! i = doc s ! i"
  by (induction js arbitrary: s) (simp_all add: nth_paint)

lemma length_fold_paint [simp]: "length (doc (fold paint js s)) = length (doc s)"
  by (induction js arbitrary: s) simp_all

lemma active_fold_paint:
  "classList_contains (doc (fold paint js s)) i ''active''
     = (classList_contains (doc s) i ''active'' \<or> (i \<in> set js \<and> i < length (doc s)))"
  by (induction js arbitrary: s) (auto simp: active_paint)

lemma isAnimated_fold_paint:
  "observer s \<noteq> None \<Longrightarrow>
   isAnimated (doc (fold paint js s)) i
     = (isAnimated (doc s) i \<or> (i \<in> set js \<and> i < length (doc s)))"
proof (induction js arbitrary: s)
  case Nil
  show ?case by simp
next
  case (Cons j js)
  have "observer (paint j s) \<noteq> None"
    using Cons.prems by (simp add: observer_paint)
  then show ?case
    using Cons.prems by (auto simp: Cons.IH isAnimated_paint)
qed


subsection \<open>A rescan and a notification\<close>

lemma doc_rescan:
  "doc (stateOf (observeElements s))
     = fold addDefault (elementsToAnimate (doc s) targetElements) (doc s)"
  by (simp add: observeElements_unfold split: option.splits)

lemma observer_rescan:
  "observer (stateOf (observeElements s))
     = map_option (fold observe (elementsToAnimate (doc s) targetElements)) (observer s)"
  by (simp add: observeElements_unfold split: option.splits)

lemma rafQueue_rescan [simp]: "rafQueue (stateOf (observeElements s)) = rafQueue s"
  by (simp add: observeElements_unfold split: option.splits)

lemma watched_rescan:
  "watched (stateOf (observeElements s)) i
     = (watched s i \<or> (observer s \<noteq> None \<and> i \<in> set (elementsToAnimate (doc s) targetElements)))"
  by (auto simp: watched_def observer_rescan set_fold_observe split: option.splits)

lemma watched_rafQueue_update [simp]: "watched (s\<lparr>rafQueue := q\<rparr>) i = watched s i"
  by (simp add: watched_def)

lemma watched_notify [simp]: "watched (handleIntersection entries s) i = watched s i"
  by (simp add: watched_def handleIntersection_def)

lemma doc_notify [simp]: "doc (handleIntersection entries s) = doc s"
  by (simp add: handleIntersection_def)

lemma rafQueue_notify:
  "rafQueue (handleIntersection entries s) = rafQueue s @ map target (filter isIntersecting entries)"
  by (simp add: handleIntersection_def)

lemma scheduled_notify:
  "delivered entries s \<Longrightarrow> i \<in> set (rafQueue (handleIntersection entries s))
     \<Longrightarrow> i \<in> set (rafQueue s) \<or> watched s i"
  by (auto simp: rafQueue_notify delivered_def list_all_iff)

lemma strip_step: "map (strip changing) (doc (step ev s)) = map (strip changing) (doc s)"
proof (cases ev)
  case Rescan
  have "alike (doc (stateOf (observeElements s))) (doc s)"
    unfolding doc_rescan by (rule alike_fold_addDefault)
  then show ?thesis by (simp add: Rescan alike_def)
next
  case (Notify entries)
  then show ?thesis by simp
next
  case Frame
  then show ?thesis by (simp add: runFrame_paint strip_fold_paint)
qed

lemma length_step [simp]: "length (doc (step ev s)) = length (doc s)"
  using strip_step [of ev s] by (rule strip_length)

subsection \<open>Excluded elements\<close>

lemma excluded_step:
  assumes "matchesExclusion (doc s) e" and "\<not> watched s e" and "e \<notin> set (rafQueue s)"
    and "deliverable [ev] s"
  shows "matchesExclusion (doc (step ev s)) e \<and> \<not> watched (step ev s) e
         \<and> e \<notin> set (rafQueue (step ev s)) \<and> doc (step ev s) ! e = doc s ! e"
proof -
  have x: "matchesExclusion (doc (step ev s)) e"
    using assms(1) by (simp add: strip_matchesExclusion [OF strip_step])
  have rest: "\<not> watched (step ev s) e \<and> e \<notin> set (rafQueue (step ev s))
       \<and> doc (step ev s) ! e = doc s ! e"
  proof (cases ev)
    case Rescan
    have "e \<notin> set (elementsToAnimate (doc s) targetElements)"
      using assms(1) by (simp add: elementsToAnimate_iff survives_def)
    then show ?thesis
      using assms(2,3) by (simp add: Rescan watched_rescan doc_rescan nth_fold_addDefault)
  next
    case (Notify entries)
    then show ?thesis
      using assms(2,3,4) scheduled_notify [of entries s e] by auto
  next
    case Frame
    then show ?thesis
      using assms(2,3) by (simp add: runFrame_paint watched_fold_paint nth_fold_paint)
  qed
  show ?thesis using x rest by simp
qed

text \<open>
  C3. An element that matches an exclusion selector in the specification's reading (it
  has the class of a class selector, it is of the type of a bare name, or for a selector
  with a wildcard suffix it is the base selector's element or one of its descendants) is
  what \<open>isElementExcluded\<close> answers true for. If it is
  not watched and no callback is scheduled for it, as when \<^verbatim>\<open>init\<close> has just created
  the observer, then whatever rescans, notifications and frames follow, and whichever
  inclusion selectors it matches, it is never watched, no callback is scheduled or run
  for it, and the element itself is left as it was.
\<close>

theorem excluded_never_watched:
  assumes "matchesExclusion (doc s) e" and "\<not> watched s e" and "e \<notin> set (rafQueue s)"
    and "deliverable evs s"
  shows "isElementExcluded (doc s) e = Inr True
         \<and> \<not> watched (run evs s) e \<and> e \<notin> set (rafQueue (run evs s))
         \<and> e \<notin> set (activations evs s) \<and> doc (run evs s) ! e = doc s ! e"
  using assms
proof (induction evs arbitrary: s)
  case Nil
  then show ?case by (simp add: isElementExcluded_spec)
next
  case (Cons ev evs)
  have one: "deliverable [ev] s" and more: "deliverable evs (step ev s)"
    using Cons.prems(4) by (cases ev; simp)+
  have st: "matchesExclusion (doc (step ev s)) e \<and> \<not> watched (step ev s) e
         \<and> e \<notin> set (rafQueue (step ev s)) \<and> doc (step ev s) ! e = doc s ! e"
    using Cons.prems(1,2,3) one by (rule excluded_step)
  then have "isElementExcluded (doc (step ev s)) e = Inr True
         \<and> \<not> watched (run evs (step ev s)) e \<and> e \<notin> set (rafQueue (run evs (step ev s)))
         \<and> e \<notin> set (activations evs (step ev s))
         \<and> doc (run evs (step ev s)) ! e = doc (step ev s) ! e"
    using more by (intro Cons.IH) simp_all
  then have ih: "\<not> watched (run evs (step ev s)) e \<and> e \<notin> set (rafQueue (run evs (step ev s)))
         \<and> e \<notin> set (activations evs (step ev s))
         \<and> doc (run evs (step ev s)) ! e = doc (step ev s) ! e"
    by simp
  have "e \<notin> set (activations (ev # evs) s)"
    using ih Cons.prems(3) by (cases ev) simp_all
  then show ?case
    using ih st Cons.prems(1) by (simp add: isElementExcluded_spec)
qed


definition exampleEvents :: "event list" where
  "exampleEvents =
     [Rescan, Notify [\<lparr>target = 0, isIntersecting = True\<rparr>], Frame, Rescan,
      Notify [\<lparr>target = 5, isIntersecting = True\<rparr>, \<lparr>target = 5, isIntersecting = False\<rparr>],
      Frame]"

theorem excluded_never_watched_witness:
  "matchesExclusion (doc observingPage) 3 \<and> 3 \<in> set (queried (doc observingPage) ''p'')
   \<and> isElementExcluded (doc observingPage) 3 = Inr True
   \<and> \<not> watched observingPage 3 \<and> 3 \<notin> set (rafQueue observingPage)
   \<and> deliverable exampleEvents observingPage
   \<and> \<not> watched (run exampleEvents observingPage) 3
   \<and> 3 \<notin> set (rafQueue (run exampleEvents observingPage))
   \<and> 3 \<notin> set (activations exampleEvents observingPage)
   \<and> doc (run exampleEvents observingPage) ! 3 = doc observingPage ! 3"
proof -
  have h1: "matchesExclusion (doc observingPage) 3" by code_simp
  have h2: "\<not> watched observingPage 3" by code_simp
  have h3: "3 \<notin> set (rafQueue observingPage)" by code_simp
  have h4: "deliverable exampleEvents observingPage" by code_simp
  have p: "3 \<in> set (queried (doc observingPage) ''p'')" by code_simp
  show ?thesis
    using excluded_never_watched [OF h1 h2 h3 h4] h1 h2 h3 h4 p by simp
qed

subsection \<open>Activated elements\<close>

definition settled :: "page \<Rightarrow> nat \<Rightarrow> bool" where
  "settled s e =
     (observer s \<noteq> None \<and> e < length (doc s)
      \<and> classList_contains (doc s) e ''active'' \<and> isAnimated (doc s) e
      \<and> \<not> watched s e \<and> e \<notin> set (rafQueue s))"

lemma settled_step:
  assumes "settled s e" and "deliverable [ev] s"
  shows "settled (step ev s) e"
proof (cases ev)
  case Rescan
  have a: "alike (doc (stateOf (observeElements s))) (doc s)"
    unfolding doc_rescan by (rule alike_fold_addDefault)
  have "e \<notin> set (elementsToAnimate (doc s) targetElements)"
    using assms(1) by (simp add: settled_def elementsToAnimate_iff survives_def)
  then show ?thesis
    using assms(1) alike_isAnimated [OF a, of e]
    by (simp add: Rescan settled_def watched_rescan observer_rescan alike_length [OF a])
      (simp add: doc_rescan classList_contains_fold_addDefault)
next
  case (Notify entries)
  then show ?thesis
    using assms scheduled_notify [of entries s e] by (auto simp: settled_def handleIntersection_def)
next
  case Frame
  obtain targets where t: "observer (s\<lparr>rafQueue := []\<rparr>) = Some targets"
    using assms(1) by (auto simp: settled_def)
  have o: "observer (fold paint (rafQueue s) (s\<lparr>rafQueue := []\<rparr>)) \<noteq> None"
    using observer_fold_paint_Some [OF t, of "rafQueue s"] by auto
  have n: "observer (s\<lparr>rafQueue := []\<rparr>) \<noteq> None"
    using t by simp
  show ?thesis
    using assms(1) o
    by (simp add: Frame settled_def runFrame_paint active_fold_paint watched_fold_paint
        isAnimated_fold_paint [OF n])
qed

lemma settled_frame:
  assumes "observer s = Some targets" and "e < length (doc s)" and "e \<in> set (rafQueue s)"
  shows "settled (runFrame s) e"
proof -
  have t: "observer (s\<lparr>rafQueue := []\<rparr>) = Some targets"
    using assms(1) by simp
  have o: "observer (fold paint (rafQueue s) (s\<lparr>rafQueue := []\<rparr>)) \<noteq> None"
    using observer_fold_paint_Some [OF t, of "rafQueue s"] by auto
  have n: "observer (s\<lparr>rafQueue := []\<rparr>) \<noteq> None"
    using t by simp
  show ?thesis
    using assms(2,3) o
    by (simp add: settled_def runFrame_paint active_fold_paint watched_fold_paint
        isAnimated_fold_paint [OF n])
qed

lemma settled_run:
  assumes "settled s e" and "deliverable evs s"
  shows "settled (run evs s) e \<and> e \<notin> set (activations evs s)"
  using assms
proof (induction evs arbitrary: s)
  case Nil
  then show ?case by simp
next
  case (Cons ev evs)
  have one: "deliverable [ev] s" and more: "deliverable evs (step ev s)"
    using Cons.prems(2) by (cases ev; simp)+
  have st: "settled (step ev s) e"
    using Cons.prems(1) one by (rule settled_step)
  have ih: "settled (run evs (step ev s)) e \<and> e \<notin> set (activations evs (step ev s))"
    using st more by (rule Cons.IH)
  have "e \<notin> set (rafQueue s)"
    using Cons.prems(1) by (simp add: settled_def)
  then have "e \<notin> set (activations (ev # evs) s)"
    using ih by (cases ev) simp_all
  then show ?case
    using ih by simp
qed

lemma attr_update_same: "map_of ps k = Some v \<Longrightarrow> attr_update k v ps = ps"
  by (induction ps) (auto split: if_splits)

lemma setAttribute_same: "getAttribute d i k = Some v \<Longrightarrow> setAttribute k v i d = d"
  by (auto simp: getAttribute_def setAttribute_def attr_update_same split: if_splits)

lemma classList_add_same: "classList_contains d i c \<Longrightarrow> classList_add c i d = d"
  by (simp add: classList_contains_def classList_add_def)

lemma settled_callback:
  assumes "settled s e"
  shows "animationFrameCallback e s = Done s"
proof -
  obtain targets where t: "observer s = Some targets"
    using assms by (auto simp: settled_def)
  have "e \<notin> set targets"
    using assms t by (simp add: settled_def watched_def)
  then have "unobserve e targets = targets"
    by (simp add: unobserve_def)
  moreover have "setAttribute ''data-animated'' ''true'' e (classList_add ''active'' e (doc s)) = doc s"
    using assms by (simp add: settled_def isAnimated_def classList_add_same setAttribute_same)
  ultimately show ?thesis
    using t by (simp add: animationFrameCallback_def)
qed

text \<open>
  C1, as the code has it. Take a page with an observer and an element for which a
  callback is scheduled, which is what \<open>handleIntersection\<close> does for an entry that
  intersects. At the next frame the element has the class \<^verbatim>\<open>active\<close> and the marker
  \<^verbatim>\<open>data-animated="true"\<close> and is no longer watched; and through every sequence of
  rescans, notifications and frames that can follow, it keeps the class and the marker,
  is never watched again, and no callback is scheduled or run for it again. Were the
  callback to run for it once more, the page would stay as it is.
\<close>

theorem activated_element_stays_settled:
  assumes "observer s = Some targets" and "e < length (doc s)" and "e \<in> set (rafQueue s)"
    and "deliverable evs (runFrame s)"
  shows "classList_contains (doc (run evs (runFrame s))) e ''active''
       \<and> isAnimated (doc (run evs (runFrame s))) e
       \<and> \<not> watched (run evs (runFrame s)) e
       \<and> e \<notin> set (rafQueue (run evs (runFrame s)))
       \<and> e \<notin> set (activations evs (runFrame s))
       \<and> animationFrameCallback e (run evs (runFrame s)) = Done (run evs (runFrame s))"
proof -
  have "settled (runFrame s) e"
    using assms(1,2,3) by (rule settled_frame)
  then have "settled (run evs (runFrame s)) e \<and> e \<notin> set (activations evs (runFrame s))"
    using assms(4) by (rule settled_run)
  then show ?thesis
    using settled_callback [of "run evs (runFrame s)" e] by (simp add: settled_def)
qed

text \<open>The card of the example enters the viewport, leaves it and enters it again.\<close>

definition reentry :: "entry list" where
  "reentry =
     [\<lparr>target = 0, isIntersecting = True\<rparr>, \<lparr>target = 0, isIntersecting = False\<rparr>,
      \<lparr>target = 0, isIntersecting = True\<rparr>]"

definition notifiedPage :: page where
  "notifiedPage = handleIntersection [\<lparr>target = 0, isIntersecting = True\<rparr>] scannedPage"

definition laterEvents :: "event list" where
  "laterEvents =
     [Rescan, Notify [\<lparr>target = 5, isIntersecting = True\<rparr>], Frame, Rescan, Frame]"

theorem activated_element_stays_settled_witness:
  "observer notifiedPage = Some [5, 0] \<and> 0 < length (doc notifiedPage)
   \<and> 0 \<in> set (rafQueue notifiedPage)
   \<and> deliverable laterEvents (runFrame notifiedPage)
   \<and> classList_contains (doc (run laterEvents (runFrame notifiedPage))) 0 ''active''
   \<and> isAnimated (doc (run laterEvents (runFrame notifiedPage))) 0
   \<and> \<not> watched (run laterEvents (runFrame notifiedPage)) 0
   \<and> 0 \<notin> set (rafQueue (run laterEvents (runFrame notifiedPage)))
   \<and> 0 \<notin> set (activations laterEvents (runFrame notifiedPage))"
proof -
  have h1: "observer notifiedPage = Some [5, 0]" by code_simp
  have h2: "0 < length (doc notifiedPage)" by code_simp
  have h3: "0 \<in> set (rafQueue notifiedPage)" by code_simp
  have h4: "deliverable laterEvents (runFrame notifiedPage)" by code_simp
  show ?thesis
    using activated_element_stays_settled [OF h1 h2 h3 h4] h1 h2 h3 h4 by simp
qed

text \<open>
  The claim as the specification states it fails: while the card is still watched, each
  entry that intersects schedules one more callback, and the frame runs them all.
\<close>

theorem activated_twice_counterexample:
  "watched scannedPage 0 \<and> survives (doc scannedPage) 0
   \<and> 0 \<in> set (queried (doc scannedPage) ''.card'')
   \<and> deliverable [Notify reentry, Frame] scannedPage
   \<and> activations [Notify reentry, Frame] scannedPage = [0, 0]"
  by code_simp

text \<open>
  C2, as the code has it. \<open>handleIntersection\<close> writes nothing but the list of scheduled
  callbacks: when it returns, the observer has the targets it had and the document is
  the one it was, and one callback is scheduled for each entry that intersects. The
  element of such an entry stops being watched when the frame runs the callback, which
  is also where it gets its class and its marker.
\<close>

theorem handleIntersection_defers_unobserve:
  assumes "observer s = Some targets" and "entry \<in> set entries" and "isIntersecting entry"
  shows "observer (handleIntersection entries s) = Some targets
       \<and> doc (handleIntersection entries s) = doc s
       \<and> rafQueue (handleIntersection entries s)
           = rafQueue s @ map target (filter isIntersecting entries)
       \<and> target entry \<in> set (rafQueue (handleIntersection entries s))
       \<and> \<not> watched (runFrame (handleIntersection entries s)) (target entry)
       \<and> animationFrameCallback (target entry) s =
           Done (s\<lparr>doc := setAttribute ''data-animated'' ''true'' (target entry)
                           (classList_add ''active'' (target entry) (doc s)),
                   observer := Some (unobserve (target entry) targets)\<rparr>)"
  using assms
  by (auto simp: handleIntersection_def runFrame_paint watched_fold_paint
      animationFrameCallback_def)

theorem handleIntersection_defers_unobserve_witness:
  "observer scannedPage = Some [5, 0]
   \<and> \<lparr>target = 0, isIntersecting = True\<rparr> \<in> set reentry
   \<and> isIntersecting \<lparr>target = 0, isIntersecting = True\<rparr>
   \<and> observer (handleIntersection reentry scannedPage) = Some [5, 0]
   \<and> doc (handleIntersection reentry scannedPage) = doc scannedPage
   \<and> rafQueue (handleIntersection reentry scannedPage) = [0, 0]
   \<and> observer (runFrame (handleIntersection reentry scannedPage)) = Some [5]"
proof -
  have h1: "observer scannedPage = Some [5, 0]" by code_simp
  have h2: "\<lparr>target = 0, isIntersecting = True\<rparr> \<in> set reentry" by code_simp
  have h3: "isIntersecting \<lparr>target = 0, isIntersecting = True\<rparr>" by simp
  have e1: "rafQueue scannedPage @ map target (filter isIntersecting reentry) = [0, 0]"
    by code_simp
  have e2: "observer (runFrame (handleIntersection reentry scannedPage)) = Some [5]"
    by code_simp
  show ?thesis
    using handleIntersection_defers_unobserve [OF h1 h2 h3] h1 h2 e1 e2 by simp
qed

text \<open>
  The claim as the specification states it fails: when \<open>handleIntersection\<close> has
  returned, the card it was told about is still watched, with its callback scheduled.
\<close>

theorem unobserve_synchronous_counterexample:
  "watched scannedPage 0
   \<and> watched (handleIntersection [\<lparr>target = 0, isIntersecting = True\<rparr>] scannedPage) 0
   \<and> rafQueue (handleIntersection [\<lparr>target = 0, isIntersecting = True\<rparr>] scannedPage) = [0]"
  by code_simp


section \<open>Loops over the inclusion selectors\<close>

text \<open>An element matches an inclusion selector.\<close>

definition matchesInclusion :: "document \<Rightarrow> nat \<Rightarrow> bool" where
  "matchesInclusion d i = list_ex (\<lambda>selector. i \<in> set (queried d selector)) targetElements"

definition included :: "document \<Rightarrow> string list \<Rightarrow> nat list" where
  "included d selectors = concat (map (queried d) selectors)"

lemma included_iff: "i \<in> set (included d targetElements) \<longleftrightarrow> matchesInclusion d i"
  by (auto simp: included_def matchesInclusion_def list_ex_iff)

lemma matchesInclusion_less: "matchesInclusion d i \<Longrightarrow> i < length d"
  by (auto simp: matchesInclusion_def list_ex_iff dest: queried_less)

lemma elementsToAnimate_targets:
  "i \<in> set (elementsToAnimate d targetElements) \<longleftrightarrow> survives d i \<and> matchesInclusion d i"
  by (auto simp: elementsToAnimate_iff matchesInclusion_def list_ex_iff)

lemma strip_included:
  assumes "map (strip changing) d' = map (strip changing) d"
    and "list_all (stableSelector changing) selectors"
  shows "included d' selectors = included d selectors"
  using assms(2) strip_querySelectorAll [OF assms(1)]
  by (induction selectors) (simp_all add: included_def queried_def)

lemma strip_matchesInclusion:
  assumes "map (strip changing) d' = map (strip changing) d"
  shows "matchesInclusion d' i = matchesInclusion d i"
  using strip_included [OF assms targets_stable] included_iff by metis

lemma strip_fold:
  assumes "\<And>i d. map (strip C) (body i d) = map (strip C) d"
  shows "map (strip C) (fold body is d) = map (strip C) d"
  by (induction "is" arbitrary: d) (simp_all add: assms)

lemma fold_forEachMatch:
  assumes "\<And>i d. map (strip changing) (body i d) = map (strip changing) d"
    and "list_all parses selectors" and "list_all (stableSelector changing) selectors"
  shows "fold (forEachMatch body) selectors (d, None)
           = (fold body (included d selectors) d, None)"
  using assms(2,3)
proof (induction selectors arbitrary: d)
  case Nil
  show ?case by (simp add: included_def)
next
  case (Cons selector selectors)
  let ?d = "fold body (queried d selector) d"
  obtain elements where q: "querySelectorAll d selector = Inr elements"
    using Cons.prems(1) by (auto simp: parses_def querySelectorAll_def)
  have s: "map (strip changing) ?d = map (strip changing) d"
    using assms(1) by (rule strip_fold)
  have e: "included ?d selectors = included d selectors"
    using Cons.prems(2) by (intro strip_included [OF s]) simp
  have "fold (forEachMatch body) (selector # selectors) (d, None)
      = fold (forEachMatch body) selectors (?d, None)"
    using q by (simp add: queried_def)
  also have "\<dots> = (fold body (included ?d selectors) ?d, None)"
    using Cons.prems by (intro Cons.IH) simp_all
  finally show ?case
    unfolding e by (simp add: included_def)
qed

subsection \<open>The fallback\<close>

lemma strip_revealElement: "map (strip changing) (revealElement i d) = map (strip changing) d"
  by (simp add: revealElement_def strip_classList_add changing_def)

lemma attributes_revealElement: "map attributes (revealElement i d) = map attributes d"
  by (simp add: revealElement_def attributes_classList_add)

lemma attributes_fold_revealElement: "map attributes (fold revealElement is d) = map attributes d"
  by (induction "is" arbitrary: d) (simp_all add: attributes_revealElement)

lemma active_revealElement:
  "classList_contains (revealElement j d) i ''active''
     = (classList_contains d i ''active'' \<or> (i = j \<and> i < length d))"
  by (auto simp: revealElement_def classList_contains_add)

lemma length_revealElement [simp]: "length (revealElement j d) = length d"
  by (simp add: revealElement_def)

lemma length_fold_revealElement [simp]: "length (fold revealElement is d) = length d"
  by (induction "is" arbitrary: d) simp_all

lemma active_fold_revealElement:
  "classList_contains (fold revealElement is d) i ''active''
     = (classList_contains d i ''active'' \<or> (i \<in> set is \<and> i < length d))"
  by (induction "is" arbitrary: d) (auto simp: active_revealElement)

lemma nth_revealElement:
  "classList_contains d i ''active'' \<or> i \<noteq> j \<Longrightarrow> revealElement j d ! i = d ! i"
  by (cases "i = j") (auto simp: revealElement_def nth_classList_add)

lemma nth_fold_revealElement:
  "classList_contains d i ''active'' \<Longrightarrow> fold revealElement is d ! i = d ! i"
  by (induction "is" arbitrary: d) (simp_all add: nth_revealElement active_revealElement)

lemma fallbackTimeout_unfold:
  "fallbackTimeout s = Done (s\<lparr>doc := fold revealElement (included (doc s) targetElements) (doc s)\<rparr>)"
  by (simp add: fallbackTimeout_def
      fold_forEachMatch [OF strip_revealElement targets_parse targets_stable])

text \<open>
  C4. Without \<^verbatim>\<open>IntersectionObserver\<close> in the window, \<open>init\<close> returns with no observer
  created and no element watched, one warning more on the console and one timer more, of
  100 milliseconds; the document is not touched. When the timer runs, on whatever page
  \<open>s'\<close> there is by then, every element that matches an inclusion selector has the class
  \<^verbatim>\<open>active\<close> afterwards, excluded or not (no exclusion selector is looked at), and an
  element that had the class already is left as it was.
\<close>

theorem fallback_reveals_all:
  assumes "\<not> hasIntersectionObserver s" and "observer s = None"
  shows "init s = Done (fallbackAnimation s)
       \<and> observer (fallbackAnimation s) = None
       \<and> (\<forall>i. \<not> watched (fallbackAnimation s) i)
       \<and> doc (fallbackAnimation s) = doc s
       \<and> console (fallbackAnimation s)
            = console s @ [''Intersection Observer not supported. Using fallback animation.'']
       \<and> timers (fallbackAnimation s) = timers s @ [(100, FallbackReveal)]
       \<and> (\<forall>s' i. \<exists>s''. runTask FallbackReveal s' = Done s''
             \<and> (matchesInclusion (doc s') i \<longrightarrow> classList_contains (doc s'') i ''active'')
             \<and> (classList_contains (doc s') i ''active'' \<longrightarrow> doc s'' ! i = doc s' ! i))"
  using assms
  by (auto simp: init_def fallbackAnimation_def watched_def fallbackTimeout_unfold
      active_fold_revealElement included_iff nth_fold_revealElement
      dest: matchesInclusion_less)

definition legacyPage :: page where
  "legacyPage = examplePage\<lparr>hasIntersectionObserver := False\<rparr>"

theorem fallback_reveals_all_witness:
  "\<not> hasIntersectionObserver legacyPage \<and> observer legacyPage = None
   \<and> init legacyPage = Done (fallbackAnimation legacyPage)
   \<and> timers (fallbackAnimation legacyPage) = [(100, FallbackReveal)]
   \<and> matchesInclusion (doc (fallbackAnimation legacyPage)) 3
   \<and> matchesExclusion (doc (fallbackAnimation legacyPage)) 3
   \<and> classList_contains (doc (stateOf (runTask FallbackReveal (fallbackAnimation legacyPage)))) 3
        ''active''
   \<and> map classList (doc (stateOf (runTask FallbackReveal (fallbackAnimation legacyPage))))
        = [[''card'', ''fade-in-up'', ''active''], [], [''footer__bottom'', ''fade-in-up'', ''active''],
           [''fade-in-up'', ''active''], [''fade-in-up'', ''active''],
           [''fade-in-left'', ''fade-in-up'', ''active'']]"
proof -
  have h1: "\<not> hasIntersectionObserver legacyPage" by code_simp
  have h2: "observer legacyPage = None" by code_simp
  have m: "matchesInclusion (doc (fallbackAnimation legacyPage)) 3" by code_simp
  have x: "matchesExclusion (doc (fallbackAnimation legacyPage)) 3" by code_simp
  have t: "timers legacyPage = []" by code_simp
  have e: "map classList (doc (stateOf (runTask FallbackReveal (fallbackAnimation legacyPage))))
        = [[''card'', ''fade-in-up'', ''active''], [], [''footer__bottom'', ''fade-in-up'', ''active''],
           [''fade-in-up'', ''active''], [''fade-in-up'', ''active''],
           [''fade-in-left'', ''fade-in-up'', ''active'']]"
    by code_simp
  obtain s'' where "runTask FallbackReveal (fallbackAnimation legacyPage) = Done s''"
    and "matchesInclusion (doc (fallbackAnimation legacyPage)) 3
           \<longrightarrow> classList_contains (doc s'') 3 ''active''"
    using fallback_reveals_all [OF h1 h2] by blast
  then show ?thesis
    using fallback_reveals_all [OF h1 h2] h1 h2 m x t e by simp
qed

lemma contains_revealElement:
  "classList_contains d i c \<Longrightarrow> classList_contains (revealElement j d) i c"
  by (simp add: revealElement_def classList_contains_add)

lemma contains_fold_revealElement:
  "classList_contains d i c \<Longrightarrow> classList_contains (fold revealElement is d) i c"
  by (induction "is" arbitrary: d) (simp_all add: contains_revealElement)

text \<open>
  C10. The fallback writes class lists only. When its timer has run, every element has
  the attributes it had, so none has gained the marker \<^verbatim>\<open>data-animated\<close>; tag names,
  parents and all classes but \<^verbatim>\<open>fade-in-up\<close> and \<^verbatim>\<open>active\<close> are as before, no class
  is lost, and the rest of the page (observer, scheduled callbacks, timers, console) is
  untouched. \<open>fallbackAnimation\<close> itself does not touch the document.
\<close>

theorem fallback_keeps_attributes:
  "map attributes (doc (stateOf (fallbackTimeout s))) = map attributes (doc s)
   \<and> map (strip changing) (doc (stateOf (fallbackTimeout s))) = map (strip changing) (doc s)
   \<and> (classList_contains (doc s) i c \<longrightarrow> classList_contains (doc (stateOf (fallbackTimeout s))) i c)
   \<and> isAnimated (doc (stateOf (fallbackTimeout s))) i = isAnimated (doc s) i
   \<and> stateOf (fallbackTimeout s) = s\<lparr>doc := doc (stateOf (fallbackTimeout s))\<rparr>
   \<and> doc (fallbackAnimation s) = doc s"
proof -
  have a: "map attributes (doc (stateOf (fallbackTimeout s))) = map attributes (doc s)"
    by (simp add: fallbackTimeout_unfold attributes_fold_revealElement)
  have "isAnimated (doc (stateOf (fallbackTimeout s))) i = isAnimated (doc s) i"
    using getAttribute_cong [OF a] by (simp add: isAnimated_def)
  then show ?thesis
    using a by (simp add: fallbackTimeout_unfold strip_fold [OF strip_revealElement]
        fallbackAnimation_def contains_fold_revealElement)
qed

theorem fallback_keeps_attributes_witness:
  "map attributes (doc (stateOf (fallbackTimeout legacyPage)))
     = [[], [], [], [], [(''data-animated'', ''true'')], []]
   \<and> classList_contains (doc (stateOf (fallbackTimeout legacyPage))) 0 ''active''
   \<and> \<not> isAnimated (doc (stateOf (fallbackTimeout legacyPage))) 0"
proof -
  have a: "map attributes (doc legacyPage) = [[], [], [], [], [(''data-animated'', ''true'')], []]"
    by code_simp
  have c: "classList_contains (doc (stateOf (fallbackTimeout legacyPage))) 0 ''active''"
    by code_simp
  have n: "\<not> isAnimated (doc legacyPage) 0"
    by code_simp
  show ?thesis
    using fallback_keeps_attributes [of legacyPage 0 "''card''"] a c n by simp
qed


section \<open>triggerAnimation\<close>

lemma length_triggerElement [simp]: "length (triggerElement j d) = length d"
  by (simp add: triggerElement_def)

lemma active_triggerElement:
  "classList_contains (triggerElement j d) i ''active''
     = (classList_contains d i ''active'' \<or> (i = j \<and> i < length d))"
  by (auto simp: triggerElement_def classList_contains_add)

lemma isAnimated_triggerElement:
  "isAnimated (triggerElement j d) i
     = (isAnimated d i \<or> (i = j \<and> i < length d \<and> \<not> classList_contains d i ''active''))"
  by (auto simp: triggerElement_def isAnimated_def getAttribute_setAttribute)

lemma nth_triggerElement:
  "classList_contains d i ''active'' \<or> i \<noteq> j \<Longrightarrow> triggerElement j d ! i = d ! i"
  by (cases "i = j") (auto simp: triggerElement_def nth_classList_add nth_setAttribute)

lemma length_fold_triggerElement [simp]: "length (fold triggerElement is d) = length d"
  by (induction "is" arbitrary: d) simp_all

lemma active_fold_triggerElement:
  "classList_contains (fold triggerElement is d) i ''active''
     = (classList_contains d i ''active'' \<or> (i \<in> set is \<and> i < length d))"
  by (induction "is" arbitrary: d) (auto simp: active_triggerElement)

lemma isAnimated_fold_triggerElement:
  "isAnimated (fold triggerElement is d) i
     = (isAnimated d i \<or> (i \<in> set is \<and> i < length d \<and> \<not> classList_contains d i ''active''))"
  by (induction "is" arbitrary: d) (auto simp: isAnimated_triggerElement active_triggerElement)

lemma nth_fold_triggerElement:
  "classList_contains d i ''active'' \<or> i \<notin> set is \<Longrightarrow> fold triggerElement is d ! i = d ! i"
  by (induction "is" arbitrary: d) (auto simp: nth_triggerElement active_triggerElement)

lemma fold_triggerElement_id:
  "\<forall>i\<in>set is. classList_contains d i ''active'' \<Longrightarrow> fold triggerElement is d = d"
  by (induction "is") (simp_all add: triggerElement_def)

text \<open>The elements a call of \<^verbatim>\<open>triggerAnimation\<close> works on, when it does not throw.\<close>

fun triggered :: "browser \<Rightarrow> selectorOrElement \<Rightarrow> document \<Rightarrow> nat list option" where
  "triggered browser (Selector selector) d =
     (case browser d selector of Inl e \<Rightarrow> None | Inr elements \<Rightarrow> Some elements)"
| "triggered browser (Element element) d = Some [element]"

lemma triggerAnimation_unfold:
  "triggered browser a (doc s) = Some elements \<Longrightarrow>
   triggerAnimation browser a s = Done (s\<lparr>doc := fold triggerElement elements (doc s)\<rparr>)"
  by (cases a) (auto split: sum.splits)

text \<open>
  C9. \<open>triggerAnimation\<close> looks at neither list of selectors. Take any selector string
  and whatever browser answers it: every element of the document among the matches
  that has not the class \<^verbatim>\<open>active\<close> gets the class and the marker, whether or not the
  element matches an inclusion or an exclusion selector; nothing about the element but
  the browser's answer and the class is asked for.
\<close>

theorem triggerAnimation_unfiltered:
  assumes "browser (doc s) selector = Inr elements" and "i \<in> set elements"
    and "i < length (doc s)" and "\<not> classList_contains (doc s) i ''active''"
  shows "\<exists>s1. triggerAnimation browser (Selector selector) s = Done s1
              \<and> classList_contains (doc s1) i ''active'' \<and> isAnimated (doc s1) i"
  using assms by (simp add: active_fold_triggerElement isAnimated_fold_triggerElement)

theorem triggerAnimation_unfiltered_witness:
  "querySelectorAll (doc scannedPage) ''footer *'' = Inr [2, 3]
   \<and> matchesExclusion (doc scannedPage) 2 \<and> matchesExclusion (doc scannedPage) 3
   \<and> \<not> classList_contains (doc scannedPage) 3 ''active''
   \<and> querySelectorAll (doc scannedPage) ''footer'' = Inr [1]
   \<and> \<not> matchesInclusion (doc scannedPage) 1
   \<and> \<not> classList_contains (doc scannedPage) 1 ''active''
   \<and> classList_contains (doc (stateOf (triggerAnimation querySelectorAll (Selector ''footer *'') scannedPage))) 3 ''active''
   \<and> isAnimated (doc (stateOf (triggerAnimation querySelectorAll (Selector ''footer *'') scannedPage))) 3
   \<and> classList_contains (doc (stateOf (triggerAnimation querySelectorAll (Selector ''footer'') scannedPage))) 1 ''active''
   \<and> isAnimated (doc (stateOf (triggerAnimation querySelectorAll (Selector ''footer'') scannedPage))) 1"
proof -
  have q: "querySelectorAll (doc scannedPage) ''footer *'' = Inr [2, 3]" by code_simp
  have x: "matchesExclusion (doc scannedPage) 2" "matchesExclusion (doc scannedPage) 3"
    by code_simp+
  have n: "\<not> classList_contains (doc scannedPage) 3 ''active''" by code_simp
  have q': "querySelectorAll (doc scannedPage) ''footer'' = Inr [1]" by code_simp
  have m: "\<not> matchesInclusion (doc scannedPage) 1" by code_simp
  have n': "\<not> classList_contains (doc scannedPage) 1 ''active''" by code_simp
  have a: "(3::nat) \<in> set [2, 3]" and a': "(1::nat) \<in> set [1]" by simp_all
  have l: "3 < length (doc scannedPage)" and l': "1 < length (doc scannedPage)" by code_simp+
  show ?thesis
    using triggerAnimation_unfiltered [of querySelectorAll scannedPage "''footer *''" "[2, 3]" 3,
        OF q a l n]
      triggerAnimation_unfiltered [of querySelectorAll scannedPage "''footer''" "[1]" 1,
        OF q' a' l' n']
      q x n q' m n'
    by auto
qed

text \<open>
  C5, as the code has it. Take an element of the document, or any selector string and
  whatever browser answers it with elements of the document. The call of
  \<open>triggerAnimation\<close> asks for no observer and no entry: every element it works on has
  the class \<^verbatim>\<open>active\<close> afterwards, and the marker too if it had not the class before;
  an element that had the class already is left as it was, and when all of them had it
  the page is unchanged. A second call with the same element changes nothing more; a
  second call with the same selector changes nothing more when the selector still
  matches the same elements.
\<close>

theorem triggerAnimation_forces:
  assumes "triggered browser a (doc s) = Some elements"
    and "list_all (\<lambda>i. i < length (doc s)) elements"
  shows "\<exists>s1. triggerAnimation browser a s = Done s1
       \<and> (\<forall>i\<in>set elements. classList_contains (doc s1) i ''active'')
       \<and> (\<forall>i\<in>set elements. \<not> classList_contains (doc s) i ''active'' \<longrightarrow> isAnimated (doc s1) i)
       \<and> (\<forall>i. classList_contains (doc s) i ''active'' \<longrightarrow> doc s1 ! i = doc s ! i)
       \<and> (\<forall>i. i \<notin> set elements \<longrightarrow> doc s1 ! i = doc s ! i)
       \<and> ((\<forall>i\<in>set elements. classList_contains (doc s) i ''active'') \<longrightarrow> s1 = s)
       \<and> (triggered browser a (doc s1) = Some elements \<longrightarrow> triggerAnimation browser a s1 = Done s1)
       \<and> (\<forall>element. a = Element element \<longrightarrow> triggerAnimation browser a s1 = Done s1)"
proof -
  define s1 where "s1 = s\<lparr>doc := fold triggerElement elements (doc s)\<rparr>"
  have first: "triggerAnimation browser a s = Done s1"
    using assms(1) by (simp add: triggerAnimation_unfold s1_def)
  have active: "\<forall>i\<in>set elements. classList_contains (doc s1) i ''active''"
    using assms(2) by (auto simp: s1_def active_fold_triggerElement list_all_iff)
  have marker: "\<forall>i\<in>set elements. \<not> classList_contains (doc s) i ''active'' \<longrightarrow> isAnimated (doc s1) i"
    using assms(2) by (auto simp: s1_def isAnimated_fold_triggerElement list_all_iff)
  have kept: "\<forall>i. classList_contains (doc s) i ''active'' \<longrightarrow> doc s1 ! i = doc s ! i"
    by (simp add: s1_def nth_fold_triggerElement)
  have others: "\<forall>i. i \<notin> set elements \<longrightarrow> doc s1 ! i = doc s ! i"
    by (simp add: s1_def nth_fold_triggerElement)
  have noop: "(\<forall>i\<in>set elements. classList_contains (doc s) i ''active'') \<longrightarrow> s1 = s"
    by (simp add: s1_def fold_triggerElement_id)
  have again: "triggerAnimation browser a s1 = Done s1" if "triggered browser a (doc s1) = Some elements"
  proof -
    have "fold triggerElement elements (doc s1) = doc s1"
      using active by (intro fold_triggerElement_id) simp
    then show ?thesis
      using triggerAnimation_unfold [OF that] by simp
  qed
  have element: "\<forall>element. a = Element element \<longrightarrow> triggerAnimation browser a s1 = Done s1"
    using assms(1) again by auto
  show ?thesis
    using first active marker kept others noop again element by (intro exI [of _ s1]) simp
qed

text \<open>Three nested blocks, the outermost one active.\<close>

definition nestedPage :: page where
  "nestedPage =
     \<lparr>doc =
        [\<lparr>tagName = ''DIV'', classList = [''active''], attributes = [], parentNode = None\<rparr>,
         \<lparr>tagName = ''DIV'', classList = [], attributes = [], parentNode = Some 0\<rparr>,
         \<lparr>tagName = ''DIV'', classList = [], attributes = [], parentNode = Some 1\<rparr>],
      hasIntersectionObserver = True, observer = Some [], rafQueue = [],
      timers = [], console = []\<rparr>"

theorem triggerAnimation_forces_witness:
  "triggered querySelectorAll (Selector ''div'') (doc nestedPage) = Some [0, 1, 2]
   \<and> list_all (\<lambda>i. i < length (doc nestedPage)) [0, 1, 2]
   \<and> map classList (doc (stateOf (triggerAnimation querySelectorAll (Selector ''div'') nestedPage)))
        = [[''active''], [''active''], [''active'']]
   \<and> map attributes (doc (stateOf (triggerAnimation querySelectorAll (Selector ''div'') nestedPage)))
        = [[], [(''data-animated'', ''true'')], [(''data-animated'', ''true'')]]
   \<and> triggerAnimation querySelectorAll (Selector ''div'') (stateOf (triggerAnimation querySelectorAll (Selector ''div'') nestedPage))
        = triggerAnimation querySelectorAll (Selector ''div'') nestedPage"
proof -
  have h1: "triggered querySelectorAll (Selector ''div'') (doc nestedPage) = Some [0, 1, 2]" by code_simp
  have h2: "list_all (\<lambda>i. i < length (doc nestedPage)) [0, 1, 2]" by code_simp
  have c: "map classList (doc (stateOf (triggerAnimation querySelectorAll (Selector ''div'') nestedPage)))
        = [[''active''], [''active''], [''active'']]" by code_simp
  have a: "map attributes (doc (stateOf (triggerAnimation querySelectorAll (Selector ''div'') nestedPage)))
        = [[], [(''data-animated'', ''true'')], [(''data-animated'', ''true'')]]" by code_simp
  have t: "triggered querySelectorAll (Selector ''div'')
        (doc (stateOf (triggerAnimation querySelectorAll (Selector ''div'') nestedPage))) = Some [0, 1, 2]"
    by code_simp
  obtain s1 where "triggerAnimation querySelectorAll (Selector ''div'') nestedPage = Done s1"
    and "triggered querySelectorAll (Selector ''div'') (doc s1) = Some [0, 1, 2]
           \<longrightarrow> triggerAnimation querySelectorAll (Selector ''div'') s1 = Done s1"
    using triggerAnimation_forces [OF h1 h2] by blast
  then show ?thesis
    using h1 h2 c a t by simp
qed

text \<open>
  The claim as the specification states it fails for a selector whose matches depend on
  the class the call adds: the second call finds an element the first one did not.
\<close>

theorem triggerAnimation_twice_counterexample:
  "querySelectorAll (doc nestedPage) ''.active > div'' = Inr [1]
   \<and> map classList (doc (stateOf (triggerAnimation querySelectorAll (Selector ''.active > div'') nestedPage)))
        = [[''active''], [''active''], []]
   \<and> map classList
        (doc (stateOf (triggerAnimation querySelectorAll (Selector ''.active > div'')
                (stateOf (triggerAnimation querySelectorAll (Selector ''.active > div'') nestedPage)))))
        = [[''active''], [''active''], [''active'']]"
  by code_simp

section \<open>resetAnimations\<close>

lemma classList_contains_remove:
  "classList_contains (classList_remove c j d) i c'
     = (classList_contains d i c' \<and> \<not> (i = j \<and> c' = c))"
  by (auto simp: classList_contains_def classList_remove_def nth_list_update)

lemma classList_contains_removeAttribute [simp]:
  "classList_contains (removeAttribute k j d) i c = classList_contains d i c"
  by (auto simp: classList_contains_def removeAttribute_def nth_list_update)

lemma map_of_filter_key:
  "map_of (filter (\<lambda>p. fst p \<noteq> k) ps) k' = (if k' = k then None else map_of ps k')"
  by (induction ps) auto

lemma getAttribute_removeAttribute:
  "getAttribute (removeAttribute k j d) i k'
     = (if i = j \<and> k' = k then None else getAttribute d i k')"
  by (auto simp: getAttribute_def removeAttribute_def nth_list_update map_of_filter_key)

lemma getAttribute_classList_remove [simp]:
  "getAttribute (classList_remove c j d) i k = getAttribute d i k"
  by (auto simp: getAttribute_def classList_remove_def nth_list_update)

lemma strip_resetElement: "map (strip changing) (resetElement i d) = map (strip changing) d"
  by (simp add: resetElement_def strip_removeAttribute strip_classList_remove changing_def)

lemma active_resetElement:
  "classList_contains (resetElement j d) i ''active'' = (classList_contains d i ''active'' \<and> i \<noteq> j)"
  by (auto simp: resetElement_def classList_contains_remove)

lemma isAnimated_resetElement:
  "isAnimated (resetElement j d) i = (isAnimated d i \<and> i \<noteq> j)"
  by (auto simp: resetElement_def isAnimated_def getAttribute_removeAttribute)

lemma active_fold_resetElement:
  "classList_contains (fold resetElement is d) i ''active''
     = (classList_contains d i ''active'' \<and> i \<notin> set is)"
  by (induction "is" arbitrary: d) (auto simp: active_resetElement)

lemma isAnimated_fold_resetElement:
  "isAnimated (fold resetElement is d) i = (isAnimated d i \<and> i \<notin> set is)"
  by (induction "is" arbitrary: d) (auto simp: isAnimated_resetElement)

lemma resetAnimations_unfold:
  "resetAnimations s
     = observeElements (s\<lparr>doc := fold resetElement (included (doc s) targetElements) (doc s)\<rparr>)"
  by (simp add: resetAnimations_def
      fold_forEachMatch [OF strip_resetElement targets_parse targets_stable])

text \<open>
  C6, as the code has it. With an observer, \<open>resetAnimations\<close> returns, and every element
  that matched an inclusion selector has then neither the class \<^verbatim>\<open>active\<close> nor the
  marker. If the element matches no exclusion selector it is watched again, and an entry
  that reports it in the viewport, followed by a frame, gives it the class and the marker
  again. If it matches an exclusion selector the scan does not watch it.
\<close>

theorem resetAnimations_clears_and_rewatches:
  assumes "observer s = Some targets" and "matchesInclusion (doc s) i"
  shows "\<exists>s1. resetAnimations s = Done s1
       \<and> \<not> classList_contains (doc s1) i ''active'' \<and> \<not> isAnimated (doc s1) i
       \<and> (\<not> matchesExclusion (doc s) i \<longrightarrow>
            watched s1 i
          \<and> classList_contains
              (doc (run [Notify [\<lparr>target = i, isIntersecting = True\<rparr>], Frame] s1)) i ''active''
          \<and> isAnimated (doc (run [Notify [\<lparr>target = i, isIntersecting = True\<rparr>], Frame] s1)) i)
       \<and> (matchesExclusion (doc s) i \<longrightarrow> watched s1 i = watched s i)"
proof -
  define dR where "dR = fold resetElement (included (doc s) targetElements) (doc s)"
  define E where "E = elementsToAnimate dR targetElements"
  define s1 where "s1 = s\<lparr>doc := fold addDefault E dR, observer := Some (fold observe E targets)\<rparr>"
  have st: "map (strip changing) dR = map (strip changing) (doc s)"
    unfolding dR_def by (rule strip_fold [OF strip_resetElement])
  have inc: "i \<in> set (included (doc s) targetElements)"
    using assms(2) by (simp add: included_iff)
  have len: "i < length (doc s1)"
    using assms(2) strip_length [OF st] by (simp add: s1_def matchesInclusion_less)
  have first: "resetAnimations s = Done s1"
    using assms(1) by (simp add: resetAnimations_unfold observeElements_unfold s1_def E_def dR_def)
  have a0: "\<not> classList_contains dR i ''active''" and m0: "\<not> isAnimated dR i"
    using inc by (simp_all add: dR_def active_fold_resetElement isAnimated_fold_resetElement)
  have a1: "\<not> classList_contains (doc s1) i ''active''"
    using a0 by (simp add: s1_def classList_contains_fold_addDefault)
  have m1: "\<not> isAnimated (doc s1) i"
    using m0 alike_isAnimated [OF alike_fold_addDefault, of E dR i] by (simp add: s1_def)
  have inE: "i \<in> set E \<longleftrightarrow> \<not> matchesExclusion (doc s) i"
    using m0 assms(2)
    by (simp add: E_def elementsToAnimate_targets survives_def
        strip_matchesInclusion [OF st] strip_matchesExclusion [OF st])
  have w: "watched s1 i = (watched s i \<or> \<not> matchesExclusion (doc s) i)"
    using assms(1) inE by (auto simp: watched_def s1_def set_fold_observe)
  let ?n = "handleIntersection [\<lparr>target = i, isIntersecting = True\<rparr>] s1"
  have "settled (runFrame ?n) i"
  proof (rule settled_frame)
    show "observer ?n = Some (fold observe E targets)"
      by (simp add: handleIntersection_def s1_def)
    show "i < length (doc ?n)" using len by simp
    show "i \<in> set (rafQueue ?n)" by (simp add: rafQueue_notify)
  qed
  then have again: "classList_contains (doc (run [Notify [\<lparr>target = i, isIntersecting = True\<rparr>], Frame] s1)) i ''active''
      \<and> isAnimated (doc (run [Notify [\<lparr>target = i, isIntersecting = True\<rparr>], Frame] s1)) i"
    by (simp add: settled_def)
  show ?thesis
    using first a1 m1 w again by (intro exI [of _ s1]) auto
qed

definition forcedPage :: page where
  "forcedPage = stateOf (triggerAnimation querySelectorAll (Selector ''.footer__bottom'') scannedPage)"

theorem resetAnimations_clears_and_rewatches_witness:
  "observer forcedPage = Some [5, 0] \<and> matchesInclusion (doc forcedPage) 4
   \<and> classList_contains (doc forcedPage) 4 ''active'' \<and> isAnimated (doc forcedPage) 4
   \<and> \<not> matchesExclusion (doc forcedPage) 4 \<and> \<not> watched forcedPage 4
   \<and> \<not> classList_contains (doc (stateOf (resetAnimations forcedPage))) 4 ''active''
   \<and> \<not> isAnimated (doc (stateOf (resetAnimations forcedPage))) 4
   \<and> watched (stateOf (resetAnimations forcedPage)) 4
   \<and> isAnimated (doc (run [Notify [\<lparr>target = 4, isIntersecting = True\<rparr>], Frame]
        (stateOf (resetAnimations forcedPage)))) 4"
proof -
  have h1: "observer forcedPage = Some [5, 0]" by code_simp
  have h2: "matchesInclusion (doc forcedPage) 4" by code_simp
  have b: "classList_contains (doc forcedPage) 4 ''active''" "isAnimated (doc forcedPage) 4"
    "\<not> watched forcedPage 4"
    by code_simp+
  have x: "\<not> matchesExclusion (doc forcedPage) 4" by code_simp
  show ?thesis
    using resetAnimations_clears_and_rewatches [OF h1 h2] h1 h2 b x by auto
qed

text \<open>
  The claim as the specification states it fails for an element that matches an inclusion
  selector and an exclusion selector: the bottom bar of the footer, a \<^verbatim>\<open>div\<close>, loses
  the class and the marker \<open>triggerAnimation\<close> gave it, and is not watched afterwards.
\<close>

theorem resetAnimations_rewatch_counterexample:
  "matchesInclusion (doc forcedPage) 2
   \<and> classList_contains (doc forcedPage) 2 ''active'' \<and> isAnimated (doc forcedPage) 2
   \<and> \<not> classList_contains (doc (stateOf (resetAnimations forcedPage))) 2 ''active''
   \<and> \<not> isAnimated (doc (stateOf (resetAnimations forcedPage))) 2
   \<and> \<not> watched (stateOf (resetAnimations forcedPage)) 2"
  by code_simp


section \<open>Clicks on the menu\<close>

subsection \<open>What the listeners leave alone\<close>

definition shape :: "document \<Rightarrow> (string \<times> nat option) list" where
  "shape d = map (\<lambda>e. (tagName e, parentNode e)) d"

lemma shape_length: "shape d' = shape d \<Longrightarrow> length d' = length d"
  unfolding shape_def by (rule map_eq_imp_length_eq)

lemma shape_nth:
  assumes "shape d' = shape d" and "i < length d"
  shows "tagName (d' ! i) = tagName (d ! i)" and "parentNode (d' ! i) = parentNode (d ! i)"
proof -
  have len: "length d' = length d" using assms(1) by (rule shape_length)
  have "shape d' ! i = shape d ! i" by (simp only: assms(1))
  then show "tagName (d' ! i) = tagName (d ! i)" and "parentNode (d' ! i) = parentNode (d ! i)"
    using assms(2) len by (simp_all add: shape_def)
qed

lemma shape_parentOf:
  assumes "shape d' = shape d"
  shows "parentOf d' i = parentOf d i"
  using shape_nth(2) [OF assms, of i] shape_length [OF assms]
  by (simp add: parentOf_def)

lemma shape_ancestors:
  assumes "shape d' = shape d"
  shows "ancestors d' i = ancestors d i"
proof (induction i rule: less_induct)
  case (less i)
  have e: "parentOf d' i = parentOf d i"
    using assms by (rule shape_parentOf)
  show ?case
  proof (cases "parentOf d i")
    case None
    show ?thesis
      by (subst ancestors.simps, subst (2) ancestors.simps) (simp add: e None)
  next
    case (Some p)
    then have "ancestors d' p = ancestors d p"
      by (intro less.IH parentOf_less)
    then show ?thesis
      by (subst ancestors.simps, subst (2) ancestors.simps) (simp add: e Some)
  qed
qed

lemma shape_contains_node:
  "shape d' = shape d \<Longrightarrow> contains_node d' n other = contains_node d n other"
  using shape_ancestors [of d' d other] shape_length [of d' d] by (simp add: contains_node_def)

lemma shape_icon:
  assumes "shape d' = shape d"
  shows "element_querySelector d' root ''i'' = element_querySelector d root ''i''"
proof -
  have p: "parseSelector ''i'' = Some (Single [Type ''i''])"
    by code_simp
  have "matches d' (Single [Type ''i'']) j = matches d (Single [Type ''i'']) j" for j
    by (cases "j < length d") (simp_all add: shape_nth(1) [OF assms] shape_length [OF assms])
  then have "(\<lambda>j. root \<in> set (ancestors d' j) \<and> matches d' (Single [Type ''i'']) j)
      = (\<lambda>j. root \<in> set (ancestors d j) \<and> matches d (Single [Type ''i'']) j)"
    by (simp only: shape_ancestors [OF assms])
  then show ?thesis
    by (simp only: element_querySelector_def p shape_length [OF assms] option.case)
qed

lemma shape_update:
  "i < length d \<Longrightarrow> tagName e = tagName (d ! i) \<Longrightarrow> parentNode e = parentNode (d ! i)
     \<Longrightarrow> shape (d[i := e]) = shape d"
  by (simp add: shape_def map_update_same)

lemma shape_classList_add [simp]: "shape (classList_add c i d) = shape d"
  by (simp add: classList_add_def shape_update)

lemma shape_classList_remove [simp]: "shape (classList_remove c i d) = shape d"
  by (simp add: classList_remove_def shape_update)

lemma shape_classList_toggle [simp]: "shape (classList_toggle c i d) = shape d"
  by (simp add: classList_toggle_def)

lemma shape_set_className [simp]: "shape (set_className c i d) = shape d"
  by (simp add: set_className_def shape_update)

lemma shape_setIcon [simp]: "shape (stateOf (setIcon m name d)) = shape d"
  by (simp add: setIcon_def split: sum.splits option.splits)

lemma shape_toggleClick [simp]: "shape (stateOf (toggleClick m d)) = shape d"
  by (simp add: toggleClick_def)

lemma shape_linkClick [simp]: "shape (stateOf (linkClick m d)) = shape d"
  by (simp add: linkClick_def)

subsection \<open>The three listeners\<close>

lemma length_classList_remove [simp]: "length (classList_remove c j d) = length d"
  by (simp add: classList_remove_def)

lemma length_classList_toggle [simp]: "length (classList_toggle c j d) = length d"
  by (simp add: classList_toggle_def)

lemma length_set_className [simp]: "length (set_className c j d) = length d"
  by (simp add: set_className_def)

lemma icon_less:
  "element_querySelector d root ''i'' = Inr (Some icon) \<Longrightarrow> icon < length d"
  by (auto simp: element_querySelector_def find_Some_iff split: option.splits)

lemma classList_contains_set_className:
  "classList_contains (set_className c j d) i c'
     = (if i = j \<and> i < length d then c' = c else classList_contains d i c')"
  by (auto simp: classList_contains_def set_className_def nth_list_update)

lemma classList_set_className:
  "j < length d \<Longrightarrow> classList (set_className c j d ! j) = [c]"
  by (simp add: set_className_def)

lemma classList_contains_toggle:
  "i < length d \<Longrightarrow>
   classList_contains (classList_toggle c i d) i c = (\<not> classList_contains d i c)"
  by (auto simp: classList_toggle_def classList_contains_add classList_contains_remove)

text \<open>The menu is closed and shows the menu glyph.\<close>

definition closedMenu :: "menu \<Rightarrow> nat \<Rightarrow> document \<Rightarrow> bool" where
  "closedMenu m icon d =
     (\<not> classList_contains d (navbar m) ''active'' \<and> classList (d ! icon) = [''ri-menu-line''])"

lemma linkClick_closes:
  assumes "element_querySelector d (mobileMenuToggle m) ''i'' = Inr (Some icon)"
  shows "closedMenu m icon (stateOf (linkClick m d))"
proof -
  have "element_querySelector (classList_remove ''active'' (navbar m) d) (mobileMenuToggle m) ''i''
      = element_querySelector d (mobileMenuToggle m) ''i''"
    by (rule shape_icon) simp
  then have "element_querySelector (classList_remove ''active'' (navbar m) d) (mobileMenuToggle m) ''i''
      = Inr (Some icon)"
    using assms by simp
  then show ?thesis
    using icon_less [OF assms]
    by (simp add: linkClick_def setIcon_def closedMenu_def classList_contains_set_className
        classList_set_className classList_contains_remove)
qed

lemma toggleClick_flips:
  assumes "element_querySelector d (mobileMenuToggle m) ''i'' = Inr (Some icon)"
    and "icon \<noteq> navbar m" and "navbar m < length d"
  shows "classList_contains (stateOf (toggleClick m d)) (navbar m) ''active''
           = (\<not> classList_contains d (navbar m) ''active'')"
    and "classList (stateOf (toggleClick m d) ! icon)
           = [if classList_contains d (navbar m) ''active'' then ''ri-menu-line''
              else ''ri-close-line'']"
proof -
  have "element_querySelector (classList_toggle ''active'' (navbar m) d) (mobileMenuToggle m) ''i''
      = element_querySelector d (mobileMenuToggle m) ''i''"
    by (rule shape_icon) simp
  then have i: "element_querySelector (classList_toggle ''active'' (navbar m) d) (mobileMenuToggle m) ''i''
      = Inr (Some icon)"
    using assms(1) by simp
  have l: "icon < length (classList_toggle ''active'' (navbar m) d)"
    using icon_less [OF i] .
  show "classList_contains (stateOf (toggleClick m d)) (navbar m) ''active''
           = (\<not> classList_contains d (navbar m) ''active'')"
    using assms(2,3)
    by (simp add: toggleClick_def setIcon_def i classList_contains_set_className
        classList_contains_toggle)
  show "classList (stateOf (toggleClick m d) ! icon)
           = [if classList_contains d (navbar m) ''active'' then ''ri-menu-line''
              else ''ri-close-line'']"
    using assms(3) l
    by (simp add: toggleClick_def setIcon_def i classList_set_className classList_contains_toggle)
qed


subsection \<open>The way of a click\<close>

lemma ancestors_less: "a \<in> set (ancestors d i) \<Longrightarrow> a < i"
proof (induction i arbitrary: a rule: less_induct)
  case (less i)
  show ?case
  proof (cases "parentOf d i")
    case None
    then show ?thesis
      using less.prems by (simp add: ancestors.simps [of d i])
  next
    case (Some p)
    have "p < i" using Some by (rule parentOf_less)
    moreover have "a = p \<or> a \<in> set (ancestors d p)"
      using less.prems Some by (simp add: ancestors.simps [of d i])
    ultimately show ?thesis
      using less.IH [of p a] by auto
  qed
qed

lemma distinct_ancestors: "distinct (ancestors d i)"
proof (induction i rule: less_induct)
  case (less i)
  show ?case
  proof (cases "parentOf d i")
    case None
    then show ?thesis by (simp add: ancestors.simps [of d i])
  next
    case (Some p)
    have "p < i" using Some by (rule parentOf_less)
    then have "distinct (ancestors d p)" by (rule less.IH)
    moreover have "p \<notin> set (ancestors d p)"
      using ancestors_less [of p d p] by auto
    ultimately show ?thesis
      using Some by (simp add: ancestors.simps [of d i])
  qed
qed

lemma distinct_path: "distinct (i # ancestors d i)"
  using ancestors_less [of i d i] by (auto simp: distinct_ancestors)

lemma listenersAt_other:
  "n \<noteq> mobileMenuToggle m \<Longrightarrow> n \<notin> set (navLinks m) \<Longrightarrow> listenersAt m n = []"
  by (auto simp: listenersAt_def filter_empty_conv)

lemma listenersAt_toggle:
  "mobileMenuToggle m \<notin> set (navLinks m) \<Longrightarrow> listenersAt m (mobileMenuToggle m) = [toggleClick m]"
  by (auto simp: listenersAt_def filter_empty_conv)

lemma listeners_none:
  "mobileMenuToggle m \<notin> set path \<Longrightarrow> list_all (\<lambda>n. n \<notin> set (navLinks m)) path
     \<Longrightarrow> concat (map (listenersAt m) path) = []"
  by (induction path) (simp_all add: listenersAt_other)

lemma listeners_toggle:
  "distinct path \<Longrightarrow> mobileMenuToggle m \<in> set path
     \<Longrightarrow> list_all (\<lambda>n. n \<notin> set (navLinks m)) path
     \<Longrightarrow> concat (map (listenersAt m) path) = [toggleClick m]"
proof (induction path)
  case Nil
  then show ?case by simp
next
  case (Cons n path)
  show ?case
  proof (cases "n = mobileMenuToggle m")
    case True
    then have "concat (map (listenersAt m) path) = []"
      using Cons.prems by (intro listeners_none) auto
    then show ?thesis
      using True Cons.prems(3) by (simp add: listenersAt_toggle)
  next
    case False
    then have "concat (map (listenersAt m) path) = [toggleClick m]"
      using Cons.prems by (intro Cons.IH) auto
    then show ?thesis
      using False Cons.prems(3) by (simp add: listenersAt_other)
  qed
qed

lemma listeners_links:
  "mobileMenuToggle m \<notin> set path
     \<Longrightarrow> set (concat (map (listenersAt m) path)) \<subseteq> {linkClick m}"
  by (induction path) (auto simp: listenersAt_def)

lemma listeners_link_hit:
  "list_ex (\<lambda>n. n \<in> set (navLinks m)) path \<Longrightarrow> concat (map (listenersAt m) path) \<noteq> []"
  by (induction path) (auto simp: listenersAt_def filter_empty_conv)

lemma shape_listeners:
  "set listeners \<subseteq> {linkClick m}
     \<Longrightarrow> shape (fold (\<lambda>listener d'. stateOf (listener d')) listeners d) = shape d"
  by (induction listeners arbitrary: d) simp_all

lemma links_close:
  assumes "element_querySelector d (mobileMenuToggle m) ''i'' = Inr (Some icon)"
    and "set listeners \<subseteq> {linkClick m}" and "listeners \<noteq> []"
  shows "closedMenu m icon (fold (\<lambda>listener d'. stateOf (listener d')) listeners d)"
proof -
  obtain before where l: "listeners = before @ [linkClick m]"
    using assms(2,3) by (cases listeners rule: rev_cases) auto
  let ?d = "fold (\<lambda>listener d'. stateOf (listener d')) before d"
  have "shape ?d = shape d"
    using assms(2) l by (intro shape_listeners) auto
  then have "element_querySelector ?d (mobileMenuToggle m) ''i''
      = element_querySelector d (mobileMenuToggle m) ''i''"
    by (rule shape_icon)
  then have "closedMenu m icon (stateOf (linkClick m ?d))"
    using assms(1) by (intro linkClick_closes) simp
  then show ?thesis
    by (simp add: l)
qed

lemma documentClick_unfold:
  "documentClick m clicked d =
     (if \<not> contains_node d (navbar m) clicked \<and> \<not> contains_node d (mobileMenuToggle m) clicked
      then linkClick m d else Done d)"
  by (simp add: documentClick_def linkClick_def)

text \<open>
  C8. Take a page where the toggle has an icon, and a click on one of its elements. If
  the click is on the toggle or inside it, and not inside a navigation link, the
  navigation bar has the class \<^verbatim>\<open>active\<close> afterwards exactly when it had not before,
  and the icon is the close glyph when the bar is now open and the menu glyph when it is
  not (the icon being another element than the bar). If the click is inside a navigation
  link and not inside the toggle, or outside both the bar and the toggle, the bar has not
  the class afterwards and the icon is the menu glyph, open or not before. A click
  inside the bar that hits neither a link nor the toggle changes nothing. All of it is
  read from the class list of the bar in the document the click happens on.
\<close>

theorem menu_clicks:
  assumes "element_querySelector d (mobileMenuToggle m) ''i'' = Inr (Some icon)"
    and "clicked < length d"
  shows "(contains_node d (mobileMenuToggle m) clicked
            \<and> list_all (\<lambda>n. n \<notin> set (navLinks m)) (clicked # ancestors d clicked)
            \<and> navbar m < length d \<and> icon \<noteq> navbar m \<longrightarrow>
            classList_contains (click m clicked d) (navbar m) ''active''
              = (\<not> classList_contains d (navbar m) ''active'')
          \<and> classList (click m clicked d ! icon)
              = [if classList_contains d (navbar m) ''active'' then ''ri-menu-line''
                 else ''ri-close-line''])
       \<and> (\<not> contains_node d (mobileMenuToggle m) clicked
            \<and> (list_ex (\<lambda>n. n \<in> set (navLinks m)) (clicked # ancestors d clicked)
                \<or> \<not> contains_node d (navbar m) clicked) \<longrightarrow>
            \<not> classList_contains (click m clicked d) (navbar m) ''active''
          \<and> classList (click m clicked d ! icon) = [''ri-menu-line''])
       \<and> (\<not> contains_node d (mobileMenuToggle m) clicked \<and> contains_node d (navbar m) clicked
            \<and> list_all (\<lambda>n. n \<notin> set (navLinks m)) (clicked # ancestors d clicked) \<longrightarrow>
            click m clicked d = d)"
proof -
  define path where "path = clicked # ancestors d clicked"
  define listeners where "listeners = concat (map (listenersAt m) path)"
  define dl where "dl = fold (\<lambda>listener d'. stateOf (listener d')) listeners d"
  have click: "click m clicked d = stateOf (documentClick m clicked dl)"
    by (simp only: click_def dl_def listeners_def path_def)
  have onpath: "contains_node d n clicked = (n \<in> set path)" for n
    using assms(2) by (auto simp: contains_node_def path_def)
  have dist: "distinct path"
    unfolding path_def by (rule distinct_path)
  have toggle: "classList_contains (click m clicked d) (navbar m) ''active''
              = (\<not> classList_contains d (navbar m) ''active'')
          \<and> classList (click m clicked d ! icon)
              = [if classList_contains d (navbar m) ''active'' then ''ri-menu-line''
                 else ''ri-close-line'']"
    if "contains_node d (mobileMenuToggle m) clicked"
      and "list_all (\<lambda>n. n \<notin> set (navLinks m)) path"
      and "navbar m < length d" and "icon \<noteq> navbar m"
  proof -
    have "listeners = [toggleClick m]"
      unfolding listeners_def using dist that(1,2) by (intro listeners_toggle) (simp_all add: onpath)
    then have d: "dl = stateOf (toggleClick m d)"
      by (simp add: dl_def)
    have "contains_node dl (mobileMenuToggle m) clicked"
      using that(1) shape_contains_node [of dl d "mobileMenuToggle m" clicked]
      by (simp add: d)
    then have "click m clicked d = stateOf (toggleClick m d)"
      by (simp add: click documentClick_unfold d)
    then show ?thesis
      using toggleClick_flips [OF assms(1) that(4,3)] by simp
  qed
  have links: "set listeners \<subseteq> {linkClick m}" if "\<not> contains_node d (mobileMenuToggle m) clicked"
    unfolding listeners_def using that by (intro listeners_links) (simp add: onpath)
  have sh: "shape dl = shape d" if "\<not> contains_node d (mobileMenuToggle m) clicked"
    unfolding dl_def using links [OF that] by (rule shape_listeners)
  have closes: "\<not> classList_contains (click m clicked d) (navbar m) ''active''
          \<and> classList (click m clicked d ! icon) = [''ri-menu-line'']"
    if t: "\<not> contains_node d (mobileMenuToggle m) clicked"
      and "list_ex (\<lambda>n. n \<in> set (navLinks m)) path \<or> \<not> contains_node d (navbar m) clicked"
  proof (cases "contains_node d (navbar m) clicked")
    case True
    then have "listeners \<noteq> []"
      unfolding listeners_def using that(2) by (intro listeners_link_hit) simp
    then have "closedMenu m icon dl"
      unfolding dl_def using assms(1) links [OF t] by (intro links_close)
    moreover have "contains_node dl (navbar m) clicked"
      using True shape_contains_node [OF sh [OF t], of "navbar m" clicked] by simp
    then have "click m clicked d = dl"
      by (simp add: click documentClick_unfold)
    ultimately show ?thesis
      by (simp add: closedMenu_def)
  next
    case False
    have "element_querySelector dl (mobileMenuToggle m) ''i''
        = element_querySelector d (mobileMenuToggle m) ''i''"
      using sh [OF t] by (rule shape_icon)
    then have "closedMenu m icon (stateOf (linkClick m dl))"
      using assms(1) by (intro linkClick_closes) simp
    moreover have "\<not> contains_node dl (navbar m) clicked"
      and "\<not> contains_node dl (mobileMenuToggle m) clicked"
      using False t shape_contains_node [OF sh [OF t], of _ clicked] by simp_all
    then have "click m clicked d = stateOf (linkClick m dl)"
      by (simp add: click documentClick_unfold)
    ultimately show ?thesis
      by (simp add: closedMenu_def)
  qed
  have unchanged: "click m clicked d = d"
    if t: "\<not> contains_node d (mobileMenuToggle m) clicked"
      and "contains_node d (navbar m) clicked"
      and "list_all (\<lambda>n. n \<notin> set (navLinks m)) path"
  proof -
    have "listeners = []"
      unfolding listeners_def using t that(3) by (intro listeners_none) (simp_all add: onpath)
    then have "dl = d"
      by (simp add: dl_def)
    then show ?thesis
      using that(2) by (simp add: click documentClick_unfold)
  qed
  show ?thesis
  proof (intro conjI impI; elim conjE)
    assume "contains_node d (mobileMenuToggle m) clicked"
      and "list_all (\<lambda>n. n \<notin> set (navLinks m)) (clicked # ancestors d clicked)"
      and "navbar m < length d" and "icon \<noteq> navbar m"
    then show "classList_contains (click m clicked d) (navbar m) ''active''
        = (\<not> classList_contains d (navbar m) ''active'')"
      and "classList (click m clicked d ! icon)
        = [if classList_contains d (navbar m) ''active'' then ''ri-menu-line''
           else ''ri-close-line'']"
      using toggle by (simp_all add: path_def)
  next
    assume "\<not> contains_node d (mobileMenuToggle m) clicked"
      and "list_ex (\<lambda>n. n \<in> set (navLinks m)) (clicked # ancestors d clicked)
            \<or> \<not> contains_node d (navbar m) clicked"
    then show "\<not> classList_contains (click m clicked d) (navbar m) ''active''"
      and "classList (click m clicked d ! icon) = [''ri-menu-line'']"
      using closes by (simp_all add: path_def)
  next
    assume "\<not> contains_node d (mobileMenuToggle m) clicked"
      and "contains_node d (navbar m) clicked"
      and "list_all (\<lambda>n. n \<notin> set (navLinks m)) (clicked # ancestors d clicked)"
    then show "click m clicked d = d"
      using unchanged by (simp add: path_def)
  qed
qed

text \<open>A header with the navigation bar, a link in its list, and the toggle with its icon.\<close>

definition menuDoc :: document where
  "menuDoc =
     [\<lparr>tagName = ''HEADER'', classList = [], attributes = [], parentNode = None\<rparr>,
      \<lparr>tagName = ''NAV'', classList = [''navbar''], attributes = [], parentNode = Some 0\<rparr>,
      \<lparr>tagName = ''UL'', classList = [''nav-list''], attributes = [], parentNode = Some 1\<rparr>,
      \<lparr>tagName = ''A'', classList = [], attributes = [], parentNode = Some 2\<rparr>,
      \<lparr>tagName = ''BUTTON'', classList = [''mobile-menu-toggle''], attributes = [],
         parentNode = Some 0\<rparr>,
      \<lparr>tagName = ''I'', classList = [''ri-menu-line''], attributes = [], parentNode = Some 4\<rparr>,
      \<lparr>tagName = ''MAIN'', classList = [], attributes = [], parentNode = None\<rparr>]"

definition exampleMenu :: menu where
  "exampleMenu = \<lparr>mobileMenuToggle = 4, navbar = 1, navLinks = [3]\<rparr>"

definition openDoc :: document where
  "openDoc = click exampleMenu 5 menuDoc"

theorem menu_clicks_witness:
  "menuSetup menuDoc = Some exampleMenu
   \<and> element_querySelector menuDoc (mobileMenuToggle exampleMenu) ''i'' = Inr (Some 5)
   \<and> \<not> classList_contains menuDoc (navbar exampleMenu) ''active''
   \<and> classList_contains (click exampleMenu 5 menuDoc) (navbar exampleMenu) ''active''
   \<and> classList (click exampleMenu 5 menuDoc ! 5) = [''ri-close-line'']
   \<and> classList_contains openDoc 1 ''active''
   \<and> \<not> classList_contains (click exampleMenu 3 openDoc) (navbar exampleMenu) ''active''
   \<and> classList (click exampleMenu 3 openDoc ! 5) = [''ri-menu-line'']
   \<and> \<not> classList_contains (click exampleMenu 6 openDoc) (navbar exampleMenu) ''active''
   \<and> classList (click exampleMenu 6 openDoc ! 5) = [''ri-menu-line'']
   \<and> click exampleMenu 2 openDoc = openDoc"
proof -
  have s: "menuSetup menuDoc = Some exampleMenu" by code_simp
  have i: "element_querySelector menuDoc (mobileMenuToggle exampleMenu) ''i'' = Inr (Some 5)"
    by code_simp
  have i': "element_querySelector openDoc (mobileMenuToggle exampleMenu) ''i'' = Inr (Some 5)"
    by code_simp
  have l: "5 < length menuDoc" "3 < length openDoc" "6 < length openDoc" "2 < length openDoc"
    by code_simp+
  have n: "\<not> classList_contains menuDoc (navbar exampleMenu) ''active''" by code_simp
  have o: "classList_contains openDoc 1 ''active''" by code_simp
  have a: "contains_node menuDoc (mobileMenuToggle exampleMenu) 5
            \<and> list_all (\<lambda>n. n \<notin> set (navLinks exampleMenu)) (5 # ancestors menuDoc 5)
            \<and> navbar exampleMenu < length menuDoc \<and> 5 \<noteq> navbar exampleMenu"
    by code_simp
  have b: "\<not> contains_node openDoc (mobileMenuToggle exampleMenu) 3
            \<and> list_ex (\<lambda>n. n \<in> set (navLinks exampleMenu)) (3 # ancestors openDoc 3)"
    by code_simp
  have c: "\<not> contains_node openDoc (mobileMenuToggle exampleMenu) 6
            \<and> \<not> contains_node openDoc (navbar exampleMenu) 6"
    by code_simp
  have e: "\<not> contains_node openDoc (mobileMenuToggle exampleMenu) 2
            \<and> contains_node openDoc (navbar exampleMenu) 2
            \<and> list_all (\<lambda>n. n \<notin> set (navLinks exampleMenu)) (2 # ancestors openDoc 2)"
    by code_simp
  have A: "classList_contains (click exampleMenu 5 menuDoc) (navbar exampleMenu) ''active''
              = (\<not> classList_contains menuDoc (navbar exampleMenu) ''active'')
          \<and> classList (click exampleMenu 5 menuDoc ! 5)
              = [if classList_contains menuDoc (navbar exampleMenu) ''active'' then ''ri-menu-line''
                 else ''ri-close-line'']"
    using menu_clicks [OF i l(1)] a by blast
  have B: "\<not> classList_contains (click exampleMenu 3 openDoc) (navbar exampleMenu) ''active''
          \<and> classList (click exampleMenu 3 openDoc ! 5) = [''ri-menu-line'']"
    using menu_clicks [OF i' l(2)] b by blast
  have C: "\<not> classList_contains (click exampleMenu 6 openDoc) (navbar exampleMenu) ''active''
          \<and> classList (click exampleMenu 6 openDoc ! 5) = [''ri-menu-line'']"
    using menu_clicks [OF i' l(3)] c by blast
  have E: "click exampleMenu 2 openDoc = openDoc"
    using menu_clicks [OF i' l(4)] e by blast
  have A': "classList_contains (click exampleMenu 5 menuDoc) (navbar exampleMenu) ''active''
          \<and> classList (click exampleMenu 5 menuDoc ! 5) = [''ri-close-line'']"
    using A n by simp
  show ?thesis
    using s i n o A' B C E by blast
qed

end
